theory Spec2Isabelle
  imports Main "HOL-Library.Sublist"
begin

text \<open>
  A shallow embedding of \<open>src/build.ts\<close>, the build and watch orchestration of nitro:
  \<open>prepare\<close>, \<open>build\<close>, \<open>writeTypes\<close>, \<open>_build\<close> and \<open>_watch\<close>. The functions are asynchronous and
  work on shared mutable state, so each is a function from a world (the \<open>nitro\<close> object, the
  files, the calls made so far) to a result or a rejection and the world afterwards. What
  the imported modules do when called is a parameter of the model. \<open>copyPublicAssets\<close> and
  the listener that \<open>startRollupWatcher\<close> registers for the bundler's events take no part in
  the properties proved here and are left out.
\<close>

section \<open>Strings and paths\<close>

text \<open>
  JavaScript strings are modelled as \<^typ>\<open>string\<close>, one \<^typ>\<open>char\<close> per code unit below 256.
  \<open>is_space\<close> is the regular-expression class \<open>\s\<close> (and the set \<open>trim\<close> strips) on those
  code units: tab, line feed, vertical tab, form feed, carriage return, space and the
  no-break space.
\<close>

definition is_space :: "char \<Rightarrow> bool" where
  "is_space c = (c \<in> set [CHR 0x09, CHR 0x0A, CHR 0x0B, CHR 0x0C, CHR 0x0D, CHR 0x20, CHR 0xA0])"

text \<open>The class \<open>[a-z]\<close>.\<close>

definition is_lower :: "char \<Rightarrow> bool" where
  "is_lower c = (let n = (of_char c :: nat) in 97 \<le> n \<and> n \<le> 122)"

text \<open>\<open>String.prototype.trim\<close>.\<close>

definition trim :: "string \<Rightarrow> string" where
  "trim s = rev (dropWhile is_space (rev (dropWhile is_space s)))"

text \<open>\<open>String.prototype.split\<close> on a one-character separator.\<close>

fun split_on :: "char \<Rightarrow> string \<Rightarrow> string list" where
  "split_on c [] = [[]]"
| "split_on c (x # xs) =
     (if x = c then [] # split_on c xs
      else (case split_on c xs of [] \<Rightarrow> [[x]] | s # ss \<Rightarrow> (x # s) # ss))"

text \<open>\<open>Array.prototype.join\<close>.\<close>

fun join_with :: "string \<Rightarrow> string list \<Rightarrow> string" where
  "join_with sep [] = []"
| "join_with sep [s] = s"
| "join_with sep (s # t # ss) = s @ sep @ join_with sep (t # ss)"

text \<open>
  Modelled from the spec: the path library \<open>pathe\<close> (\<open>join\<close>, \<open>resolve\<close>, \<open>relative\<close>) is imported by
  \<open>build.ts\<close> and is not part of the source tree. The spec speaks of paths "relative to"
  a directory and "under" a directory; the model is the POSIX path algebra the library
  implements: a path is split at \<open>/\<close>, empty and \<open>.\<close> segments are dropped, \<open>..\<close> removes
  the segment before it, and \<open>relative\<close> walks up from the common ancestor.
\<close>

fun normalizeString :: "bool \<Rightarrow> string list \<Rightarrow> string list \<Rightarrow> string list" where
  "normalizeString allowAboveRoot acc [] = acc"
| "normalizeString allowAboveRoot acc (s # ss) =
     (if s = [] \<or> s = ''.'' then normalizeString allowAboveRoot acc ss
      else if s = ''..'' then
        (if acc \<noteq> [] \<and> last acc \<noteq> ''..'' then normalizeString allowAboveRoot (butlast acc) ss
         else if allowAboveRoot then normalizeString allowAboveRoot (acc @ [''..'']) ss
         else normalizeString allowAboveRoot acc ss)
      else normalizeString allowAboveRoot (acc @ [s]) ss)"

definition isAbsolute :: "string \<Rightarrow> bool" where
  "isAbsolute p = (case p of [] \<Rightarrow> False | c # _ \<Rightarrow> c = CHR ''/'')"

definition normalize_path :: "string \<Rightarrow> string" where
  "normalize_path p =
     (if p = [] then ''.''
      else
        let trailing = (last p = CHR ''/'');
            body = join_with ''/'' (normalizeString (\<not> isAbsolute p) [] (split_on CHR ''/'' p))
        in if body = [] then (if isAbsolute p then ''/'' else if trailing then ''./'' else ''.'')
           else (if isAbsolute p then ''/'' else []) @ body @ (if trailing then ''/'' else []))"

definition join :: "string list \<Rightarrow> string" where
  "join args =
     (let parts = filter (\<lambda>a. a \<noteq> []) args
      in if parts = [] then ''.'' else normalize_path (join_with ''/'' parts))"

text \<open>
  \<open>resolve\<close> reads its arguments from the right until one is absolute; the working
  directory stands behind the first argument.
\<close>

fun resolve_scan :: "string list \<Rightarrow> string \<Rightarrow> bool \<times> string" where
  "resolve_scan [] acc = (False, acc)"
| "resolve_scan (p # ps) acc =
     (if p = [] then resolve_scan ps acc
      else if isAbsolute p then (True, p @ ''/'' @ acc)
      else resolve_scan ps (p @ ''/'' @ acc))"

definition resolve :: "string \<Rightarrow> string list \<Rightarrow> string" where
  "resolve cwd args =
     (case resolve_scan (rev args @ [cwd]) [] of
        (absolute, raw) \<Rightarrow>
          let body = join_with ''/'' (normalizeString (\<not> absolute) [] (split_on CHR ''/'' raw))
          in if absolute then ''/'' @ body else if body = [] then ''.'' else body)"

definition segments :: "string \<Rightarrow> string list" where
  "segments p = filter (\<lambda>s. s \<noteq> []) (split_on CHR ''/'' p)"

fun common_prefix_length :: "string list \<Rightarrow> string list \<Rightarrow> nat" where
  "common_prefix_length (x # xs) (y # ys) = (if x = y then Suc (common_prefix_length xs ys) else 0)"
| "common_prefix_length _ _ = 0"

definition relative :: "string \<Rightarrow> string \<Rightarrow> string \<Rightarrow> string" where
  "relative cwd from to =
     (if from = to then []
      else
        let f = segments (resolve cwd [from]);
            t = segments (resolve cwd [to]);
            n = common_prefix_length f t
        in join_with ''/'' (replicate (length f - n) ''..'' @ drop n t))"

text \<open>\<open>String.prototype.startsWith\<close>.\<close>

definition startsWith :: "string \<Rightarrow> string \<Rightarrow> bool" where
  "startsWith s p = prefix p s"


section \<open>Data model\<close>

text \<open>
  A rejected promise or a thrown exception carries an error value with a message.
  \<open>TypeError\<close> is what the runtime raises for a method call on \<open>undefined\<close> or on a
  value that has no such method.
\<close>

datatype error = Error (message: string) | TypeError (message: string)

text \<open>
  A handler's \<open>handler\<close> field is a string (the path of the implementing module) or
  something else (\<open>typeof mw.handler !== 'string'\<close>); its \<open>route\<close> may be missing.
\<close>

datatype handler_ref = HandlerPath string | HandlerObject

record nitro_handler =
  route :: "string option"
  handler :: handler_ref

record output_options =
  dir :: string
  publicDir :: string
  serverDir :: string

record command_options =
  preview :: "string option"
  deploy :: "string option"

text \<open>The two fields of the bundler configuration that \<open>_build\<close> reads.\<close>

record rollup_config =
  rollup_output_dir :: string
  entryFileNames :: string

text \<open>\<open>nitro.options\<close>; the field \<open>output\<close> is named \<open>outputOpts\<close> here.\<close>

record nitro_options =
  outputOpts :: output_options
  buildDir :: string
  scanDirs :: "string list"
  handlers :: "nitro_handler list"
  dev :: bool
  preset :: string
  commands :: command_options
  logLevel :: int
  rollupConfig :: rollup_config

text \<open>
  \<open>vfs\<close> is the virtual overlay. \<open>unimport\<close> is absent, or present with the text its
  \<open>generateTypeDecarations\<close> returns.
\<close>

record nitro =
  options :: nitro_options
  vfs :: "string \<rightharpoonup> string"
  scannedHandlers :: "nitro_handler list"
  unimport :: "string option"

record build_info =
  date :: string
  info_preset :: string
  info_commands :: command_options

record html_template =
  src :: string
  contents :: string
  dst :: string

datatype log_level = Start | Success | Info | Failure

text \<open>
  The calls the program makes to its collaborators, in the order it makes them. A call is
  recorded when it is made, also when it then rejects. \<open>ReloadCall\<close> is a call of the
  debounced function \<open>reload\<close>; \<open>RollupWatch h\<close> is \<open>rollup.watch\<close> returning the watcher
  numbered \<open>h\<close>, \<open>RollupWatcherClose h\<close> its \<open>close()\<close>; \<open>FsWatch\<close> is the subscription of
  the filesystem watcher and \<open>FsWatcherClose\<close> its \<open>close()\<close>.
\<close>

datatype effect =
    EmptyDir string
  | ReadFile string
  | WriteFile string string
  | ScanHandlers
  | Rollup
  | BundleWrite
  | PrintFSTree string
  | CallHook string
  | Log log_level string
  | FsWatch "string list"
  | RegisterHook string
  | ReloadCall
  | RollupWatch nat
  | RollupWatcherClose nat
  | FsWatcherClose

text \<open>
  The mutable state: the \<open>nitro\<close> object, the files on disk, the calls made so far, and
  the variable \<open>rollupWatcher\<close> of \<open>_watch\<close> (\<open>None\<close> while it is \<open>undefined\<close>).
\<close>

record world =
  nitro :: nitro
  files :: "string \<rightharpoonup> string"
  trace :: "effect list"
  rollupWatcher :: "nat option"

text \<open>
  What the collaborators outside the source file do when called: whether a call rejects,
  and the values it produces. \<open>GLOB_SCAN_PATTERN\<close> is the constant imported from \<open>./scan\<close>,
  \<open>stringify\<close> is \<open>JSON.stringify(buildInfo, null, 2)\<close>.
\<close>

record env =
  cwd :: string
  now :: string
  emptyDir_error :: "string \<Rightarrow> error option"
  scanHandlers_result :: "error + nitro_handler list"
  writeFile_error :: "string \<Rightarrow> error option"
  rollup_error :: "error option"
  bundle_write_error :: "error option"
  printFSTree_error :: "error option"
  callHook_error :: "string \<Rightarrow> error option"
  document_hook :: "html_template \<Rightarrow> html_template"
  serializeTemplate :: "string \<Rightarrow> string"
  getRollupConfig :: "nitro \<Rightarrow> rollup_config"
  stringify :: "build_info \<Rightarrow> string"
  GLOB_SCAN_PATTERN :: string

section \<open>Asynchronous steps\<close>

text \<open>
  An \<open>async\<close> computation takes the world to a result and a new world; \<open>Inl\<close> is a
  rejection. \<open>await m f\<close> runs \<open>m\<close>; a rejection ends the function with that rejection, a
  value is passed on to \<open>f\<close>.
\<close>

type_synonym 'a async = "world \<Rightarrow> (error + 'a) \<times> world"

definition resolved :: "'a \<Rightarrow> 'a async" where
  "resolved x w = (Inr x, w)"

definition rejected :: "error \<Rightarrow> 'a async" where
  "rejected err w = (Inl err, w)"

definition await :: "'a async \<Rightarrow> ('a \<Rightarrow> 'b async) \<Rightarrow> 'b async" where
  "await m f w = (case m w of (Inl err, w') \<Rightarrow> (Inl err, w') | (Inr x, w') \<Rightarrow> f x w')"

definition emit :: "effect \<Rightarrow> world \<Rightarrow> world" where
  "emit ev w = w\<lparr>trace := trace w @ [ev]\<rparr>"

definition call :: "effect \<Rightarrow> error option \<Rightarrow> unit async" where
  "call ev failure w =
     (case failure of Some err \<Rightarrow> (Inl err, emit ev w) | None \<Rightarrow> (Inr (), emit ev w))"

definition log :: "log_level \<Rightarrow> string \<Rightarrow> unit async" where
  "log lvl msg = call (Log lvl msg) None"

definition callHook :: "env \<Rightarrow> string \<Rightarrow> unit async" where
  "callHook e name = call (CallHook name) (callHook_error e name)"

text \<open>A file lies inside a directory when the directory's segments are a proper prefix of its own.\<close>

definition inside :: "string \<Rightarrow> string \<Rightarrow> string \<Rightarrow> bool" where
  "inside wd d p = strict_prefix (segments (resolve wd [d])) (segments (resolve wd [p]))"

text \<open>\<open>writeFile\<close> of \<open>./utils\<close>: stores the contents under the path, or rejects.\<close>

definition writeFile :: "env \<Rightarrow> string \<Rightarrow> string \<Rightarrow> unit async" where
  "writeFile e file c w =
     (case writeFile_error e file of
        Some err \<Rightarrow> (Inl err, emit (WriteFile file c) w)
      | None \<Rightarrow> (Inr (), (emit (WriteFile file c) w)\<lparr>files := (files w)(file \<mapsto> c)\<rparr>))"

text \<open>\<open>fse.readFile(path, 'utf-8')\<close>: rejects when there is no such file.\<close>

definition readFile :: "string \<Rightarrow> string async" where
  "readFile file w =
     (case files w file of
        None \<Rightarrow> (Inl (Error ''ENOENT: no such file or directory''), emit (ReadFile file) w)
      | Some c \<Rightarrow> (Inr c, emit (ReadFile file) w))"

text \<open>\<open>scanHandlers\<close> of \<open>./scan\<close>: stores the handlers it finds in \<open>nitro.scannedHandlers\<close>.\<close>

definition scanHandlers :: "env \<Rightarrow> unit async" where
  "scanHandlers e w =
     (case scanHandlers_result e of
        Inl err \<Rightarrow> (Inl err, emit ScanHandlers w)
      | Inr hs \<Rightarrow> (Inr (), (emit ScanHandlers w)\<lparr>nitro := (nitro w)\<lparr>scannedHandlers := hs\<rparr>\<rparr>))"

section \<open>prepare\<close>

definition cleanupDir :: "env \<Rightarrow> string \<Rightarrow> unit async" where
  "cleanupDir e d w =
     (case emptyDir_error e d of
        Some err \<Rightarrow> (Inl err, emit (EmptyDir d) w)
      | None \<Rightarrow>
          (Inr (), (emit (EmptyDir d) w)\<lparr>files := (\<lambda>p. if inside (cwd e) d p then None else files w p)\<rparr>))"

definition prepare :: "env \<Rightarrow> unit async" where
  "prepare e w =
     (let out = outputOpts (options (nitro w)) in
      await (cleanupDir e (dir out)) (\<lambda>_.
      await (if \<not> startsWith (publicDir out) (dir out)
             then cleanupDir e (publicDir out) else resolved ()) (\<lambda>_.
      if \<not> startsWith (serverDir out) (dir out)
      then cleanupDir e (serverDir out) else resolved ())) w)"

text \<open>The directories a run asked to be emptied, in order.\<close>

fun cleared :: "effect list \<Rightarrow> string list" where
  "cleared [] = []"
| "cleared (EmptyDir d # evs) = d # cleared evs"
| "cleared (_ # evs) = cleared evs"

text \<open>
  What the spec calls nested: the directory \<open>p\<close> is the directory \<open>root\<close> or lies below it,
  segment by segment.
\<close>

definition nested_under :: "string \<Rightarrow> string \<Rightarrow> bool" where
  "nested_under root p = prefix (segments root) (segments p)"

section \<open>writeTypes\<close>

text \<open>A string-valued field is truthy when it is present and not the empty string.\<close>

definition truthy :: "string option \<Rightarrow> bool" where
  "truthy v = (case v of None \<Rightarrow> False | Some s \<Rightarrow> s \<noteq> [])"

text \<open>
  \<open>.replace(/\.[a-z]+$/, '')\<close>: the leftmost dot followed by one or more lower-case letters
  up to the end of the string is removed, with those letters.
\<close>

fun strip_extension :: "string \<Rightarrow> string" where
  "strip_extension [] = []"
| "strip_extension (c # cs) =
     (if c = CHR ''.'' \<and> cs \<noteq> [] \<and> list_all is_lower cs then [] else c # strip_extension cs)"

definition apostrophe :: string where
  "apostrophe = [CHR 0x27]"

definition type_expression :: "string \<Rightarrow> string" where
  "type_expression relativePath =
     ''Awaited<ReturnType<typeof import('' @ apostrophe @ relativePath @ apostrophe @ '').default>>''"

text \<open>
  \<open>routeTypes\<close> is a plain object used as a dictionary: an association list in insertion
  order. A plain object inherits the properties of \<open>Object.prototype\<close>; reading one of these
  names on \<open>routeTypes\<close> yields the inherited value, which is truthy and has no \<open>push\<close>.
\<close>

type_synonym route_types = "(string \<times> string list) list"

definition object_prototype_keys :: "string list" where
  "object_prototype_keys =
     [''constructor'', ''__defineGetter__'', ''__defineSetter__'', ''hasOwnProperty'',
      ''__lookupGetter__'', ''__lookupSetter__'', ''isPrototypeOf'', ''propertyIsEnumerable'',
      ''toString'', ''valueOf'', ''__proto__'', ''toLocaleString'']"

text \<open>
  \<open>routeTypes[r] = routeTypes[r] || []\<close> followed by \<open>routeTypes[r].push(t)\<close> on own
  properties: an existing entry keeps its place and gains \<open>t\<close> at its end, a new entry is
  added last.
\<close>

fun push_route :: "string \<Rightarrow> string \<Rightarrow> route_types \<Rightarrow> route_types" where
  "push_route r t [] = [(r, [t])]"
| "push_route r t ((k, ts) # rest) =
     (if k = r then (k, ts @ [t]) # rest else (k, ts) # push_route r t rest)"

text \<open>The loop over the merged handlers.\<close>

fun collect_route_types ::
  "string \<Rightarrow> string \<Rightarrow> nitro_handler list \<Rightarrow> route_types \<Rightarrow> error + route_types" where
  "collect_route_types wd typesDir [] routeTypes = Inr routeTypes"
| "collect_route_types wd typesDir (mw # rest) routeTypes =
     (case handler mw of
        HandlerObject \<Rightarrow> collect_route_types wd typesDir rest routeTypes
      | HandlerPath h \<Rightarrow>
          (case route mw of
             None \<Rightarrow> collect_route_types wd typesDir rest routeTypes
           | Some r \<Rightarrow>
               if r = [] then collect_route_types wd typesDir rest routeTypes
               else if r \<in> set object_prototype_keys
                 then Inl (TypeError ''routeTypes[mw.route].push is not a function'')
               else collect_route_types wd typesDir rest
                      (push_route r (type_expression (strip_extension (relative wd typesDir h)))
                         routeTypes)))"

text \<open>
  \<open>Object.entries\<close>: the keys that are array indices (canonical decimal numerals below
  \<open>2^32 - 1 = 4294967295\<close>) come first in ascending order, the other keys follow in insertion order.
\<close>

definition is_digit :: "char \<Rightarrow> bool" where
  "is_digit c = (let n = (of_char c :: nat) in 48 \<le> n \<and> n \<le> 57)"

definition digits_value :: "string \<Rightarrow> int" where
  "digits_value s = foldl (\<lambda>a c. 10 * a + (of_char c - 48)) 0 s"

definition array_index :: "string \<Rightarrow> int option" where
  "array_index s =
     (if s \<noteq> [] \<and> list_all is_digit s \<and> (s = ''0'' \<or> hd s \<noteq> CHR ''0'')
         \<and> digits_value s < 4294967295
      then Some (digits_value s) else None)"

definition object_entries :: "(string \<times> 'a) list \<Rightarrow> (string \<times> 'a) list" where
  "object_entries obj =
     sort_key (\<lambda>kv. case array_index (fst kv) of Some i \<Rightarrow> i | None \<Rightarrow> 0)
       (filter (\<lambda>kv. array_index (fst kv) \<noteq> None) obj)
     @ filter (\<lambda>kv. array_index (fst kv) = None) obj"

definition route_types_of :: "string \<Rightarrow> nitro \<Rightarrow> error + route_types" where
  "route_types_of wd n =
     collect_route_types wd (join [buildDir (options n), ''types''])
       (scannedHandlers n @ handlers (options n)) []"

definition declaration_lines :: "route_types \<Rightarrow> nitro \<Rightarrow> string list" where
  "declaration_lines routeTypes n =
     (let autoImportedTypes = (case unimport n of None \<Rightarrow> [] | Some decls \<Rightarrow> [trim decls])
      in [''// Generated by nitro'',
          ''declare module 'nitropack' {'',
          ''  type Awaited<T> = T extends PromiseLike<infer U> ? Awaited<U> : T'',
          ''  interface InternalApi {'']
         @ map (\<lambda>(path, types). ''    '' @ apostrophe @ path @ apostrophe @ '': '' @ join_with '' | '' types)
             (object_entries routeTypes)
         @ [''  }'', ''}'']
         @ autoImportedTypes
         @ [''export {}''])"

text \<open>The text of the declaration artifact, when the loop does not throw.\<close>

definition declaration_text :: "string \<Rightarrow> nitro \<Rightarrow> error + string" where
  "declaration_text wd n =
     (case route_types_of wd n of
        Inl err \<Rightarrow> Inl err
      | Inr routeTypes \<Rightarrow> Inr (join_with ''\<newline>'' (declaration_lines routeTypes n)))"

definition types_path :: "nitro \<Rightarrow> string" where
  "types_path n = join [buildDir (options n), ''types/nitro.d.ts'']"

definition writeTypes :: "env \<Rightarrow> unit async" where
  "writeTypes e w =
     (case declaration_text (cwd e) (nitro w) of
        Inl err \<Rightarrow> rejected err w
      | Inr text \<Rightarrow> writeFile e (types_path (nitro w)) text w)"

section \<open>The one-shot build\<close>

text \<open>
  The second argument of \<open>replaceAll\<close> is a replacement pattern: the runtime expands
  \<open>$$\<close>, \<open>$&\<close>, the dollar followed by a backquote or an apostrophe, and \<open>$n\<close>, \<open>$nn\<close> in
  it for every match. The regular expression here has one capture group, so only
  \<open>$1\<close> and \<open>$01\<close> name a group; with two digits that name none, the first digit alone
  is tried. A dollar before anything else stands for itself.
\<close>

fun expand_replacement :: "string \<Rightarrow> string \<Rightarrow> string \<Rightarrow> string \<Rightarrow> string \<Rightarrow> string" where
  "expand_replacement matched preceding following group1 [] = []"
| "expand_replacement matched preceding following group1 [c] = [c]"
| "expand_replacement matched preceding following group1 (c # d # rest) =
     (if c \<noteq> CHR ''$'' then c # expand_replacement matched preceding following group1 (d # rest)
      else if d = CHR ''$'' then CHR ''$'' # expand_replacement matched preceding following group1 rest
      else if d = CHR ''&'' then matched @ expand_replacement matched preceding following group1 rest
      else if d = CHR 0x60 then preceding @ expand_replacement matched preceding following group1 rest
      else if d = CHR 0x27 then following @ expand_replacement matched preceding following group1 rest
      else if is_digit d then
        (case rest of
           d2 # rest' \<Rightarrow>
             if d = CHR ''0'' \<and> d2 = CHR ''1''
               then group1 @ expand_replacement matched preceding following group1 rest'
             else if d = CHR ''0'' \<and> d2 = CHR ''0''
               then ''$00'' @ expand_replacement matched preceding following group1 rest'
             else if d = CHR ''1''
               then group1 @ expand_replacement matched preceding following group1 rest
             else CHR ''$'' # d # expand_replacement matched preceding following group1 rest
         | [] \<Rightarrow> if d = CHR ''1'' then group1 else [CHR ''$'', d])
      else CHR ''$'' # expand_replacement matched preceding following group1 (d # rest))"

text \<open>
  A match of \<open>/\s\.\/([^\s]+)/\<close> at the head of a string: one whitespace character, \<open>./\<close>, and
  the longest non-empty run of non-whitespace characters. The result is the run (the
  capture group) and what follows the match.
\<close>

definition match_here :: "string \<Rightarrow> (string \<times> string) option" where
  "match_here s =
     (case s of
        c # d # e # t \<Rightarrow>
          if is_space c \<and> d = CHR ''.'' \<and> e = CHR ''/'' \<and> takeWhile (\<lambda>x. \<not> is_space x) t \<noteq> []
          then Some (takeWhile (\<lambda>x. \<not> is_space x) t, dropWhile (\<lambda>x. \<not> is_space x) t)
          else None
      | _ \<Rightarrow> None)"

text \<open>
  \<open>replaceAll\<close> with the global expression: the string is read from the left, every match
  is replaced by the expanded pattern and reading goes on behind the match. \<open>preceding\<close> is
  the part of the input already read.
\<close>

function replace_matches :: "string \<Rightarrow> string \<Rightarrow> string \<Rightarrow> string" where
  "replace_matches replacement preceding [] = []"
| "replace_matches replacement preceding (c # cs) =
     (case match_here (c # cs) of
        Some (group1, following) \<Rightarrow>
          expand_replacement (c # ''./'' @ group1) preceding following group1 replacement
          @ replace_matches replacement (preceding @ c # ''./'' @ group1) following
      | None \<Rightarrow> c # replace_matches replacement (preceding @ [c]) cs)"
  by pat_completeness auto
termination
proof (relation "measure (\<lambda>(replacement, preceding, s). length s)")
  show "wf (measure (\<lambda>(replacement, preceding, s). length s))"
    by simp
next
  fix replacement preceding :: string and c :: char and cs :: string
    and x2 :: "string \<times> string" and group1 following :: string
  assume "match_here (c # cs) = Some x2" and "(group1, following) = x2"
  then have "length following < length (c # cs)"
    by (auto simp: match_here_def split: list.splits if_splits
        intro: le_less_trans [OF length_dropWhile_le])
  then show "((replacement, preceding @ c # ''./'' @ group1, following), replacement, preceding, c # cs)
      \<in> measure (\<lambda>(replacement, preceding, s). length s)"
    by simp
next
  fix replacement preceding :: string and c :: char and cs :: string
  show "((replacement, preceding @ [c], cs), replacement, preceding, c # cs)
      \<in> measure (\<lambda>(replacement, preceding, s). length s)"
    by simp
qed

text \<open>The local function \<open>rewriteRelativePaths\<close> of \<open>_build\<close>, with \<open>rOutput\<close> as an argument.\<close>

definition rewriteRelativePaths :: "string \<Rightarrow> string \<Rightarrow> string" where
  "rewriteRelativePaths rOutput input = replace_matches ('' '' @ rOutput @ ''/$1'') [] input"

definition backquote :: string where
  "backquote = [CHR 0x60]"

definition manifest_path :: "env \<Rightarrow> nitro \<Rightarrow> string" where
  "manifest_path e n = resolve (cwd e) [dir (outputOpts (options n)), ''nitro.json'']"

text \<open>
  \<open>rollup.rollup(config).catch(...)\<close>: a rejection is logged with the prefix and thrown
  again.
\<close>

definition rollup_build :: "env \<Rightarrow> unit async" where
  "rollup_build e w =
     (case call Rollup (rollup_error e) w of
        (Inl err, w') \<Rightarrow>
          await (log Failure (''Rollup error: '' @ message err)) (\<lambda>_. rejected err) w'
      | (Inr u, w') \<Rightarrow> (Inr u, w'))"

text \<open>The hint logged for a command template that is present and not empty.\<close>

definition command_hint :: "string \<Rightarrow> string \<Rightarrow> string option \<Rightarrow> unit async" where
  "command_hint verb rOutput cmd =
     (case cmd of
        None \<Rightarrow> resolved ()
      | Some c \<Rightarrow>
          if c = [] then resolved ()
          else log Info (''You can '' @ verb @ '' this build using '' @ backquote
                          @ rewriteRelativePaths rOutput c @ backquote))"

text \<open>\<open>_build\<close>; its result is the \<open>entry\<close> field of the object it returns.\<close>

definition build_internal :: "env \<Rightarrow> string async" where
  "build_internal e =
     await (scanHandlers e) (\<lambda>_.
     await (writeTypes e) (\<lambda>_.
     await (log Start ''Building server...'') (\<lambda>_.
     await (rollup_build e) (\<lambda>_.
     await (log Start ''Writing server bundle...'') (\<lambda>_.
     await (call BundleWrite (bundle_write_error e)) (\<lambda>_. (\<lambda>w.
       (let n = nitro w;
            nitroConfigPath = manifest_path e n;
            buildInfo = \<lparr>date = now e, info_preset = preset (options n),
                         info_commands = \<lparr>preview = preview (commands (options n)),
                                           deploy = deploy (commands (options n))\<rparr>\<rparr>;
            rOutput = relative (cwd e) (cwd e) (dir (outputOpts (options n)))
        in
        await (writeFile e nitroConfigPath (stringify e buildInfo)) (\<lambda>_.
        await (log Success ''Server built'') (\<lambda>_.
        await (if logLevel (options n) > 1
               then call (PrintFSTree (serverDir (outputOpts (options n)))) (printFSTree_error e)
               else resolved ()) (\<lambda>_.
        await (callHook e ''nitro:compiled'') (\<lambda>_.
        await (command_hint ''preview'' rOutput (preview (info_commands buildInfo))) (\<lambda>_.
        await (command_hint ''deploy'' rOutput (deploy (info_commands buildInfo))) (\<lambda>_.
        resolved (resolve (cwd e) [rollup_output_dir (rollupConfig (options n)),
                                   entryFileNames (rollupConfig (options n))])))))))) w)))))))"

section \<open>The watch coordinator\<close>

text \<open>\<open>startRollupWatcher\<close>: the new watcher is numbered by the watchers started before it.\<close>

definition startRollupWatcher :: "world \<Rightarrow> nat \<times> world" where
  "startRollupWatcher w =
     (let h = length (filter (\<lambda>ev. case ev of RollupWatch _ \<Rightarrow> True | _ \<Rightarrow> False) (trace w))
      in (h, emit (RollupWatch h) w))"

text \<open>The four statements of the function passed to \<open>debounce\<close>, and the function.\<close>

definition reload_close_previous :: "unit async" where
  "reload_close_previous w =
     (case rollupWatcher w of
        Some h \<Rightarrow> call (RollupWatcherClose h) None w
      | None \<Rightarrow> resolved () w)"

definition reload_start_watcher :: "unit async" where
  "reload_start_watcher w =
     (case startRollupWatcher w of (h, w') \<Rightarrow> (Inr (), w'\<lparr>rollupWatcher := Some h\<rparr>))"

definition reload_body :: "env \<Rightarrow> unit async" where
  "reload_body e =
     await reload_close_previous (\<lambda>_.
     await (scanHandlers e) (\<lambda>_.
     await reload_start_watcher (\<lambda>_.
     writeTypes e)))"

definition watchPatterns :: "env \<Rightarrow> nitro \<Rightarrow> string list" where
  "watchPatterns e n =
     concat (map (\<lambda>d. [join [d, ''api''], join [d, ''middleware'', GLOB_SCAN_PATTERN e]])
               (scanDirs (options n)))"

definition watchReloadEvents :: "string list" where
  "watchReloadEvents = [''add'', ''addDir'', ''unlink'', ''unlinkDir'']"

text \<open>The listener of the filesystem watcher's \<open>all\<close> event.\<close>

definition on_all :: "string \<Rightarrow> world \<Rightarrow> world" where
  "on_all event w = (if event \<in> set watchReloadEvents then emit ReloadCall w else w)"

text \<open>
  The handler registered for the \<open>close\<close> hook. A method call on \<open>undefined\<close> throws, and the
  statement after it is not reached.
\<close>

definition close_handler :: "unit async" where
  "close_handler w =
     (case rollupWatcher w of
        None \<Rightarrow> (Inl (TypeError ''Cannot read properties of undefined (reading 'close')''), w)
      | Some h \<Rightarrow> (Inr (), emit FsWatcherClose (emit (RollupWatcherClose h) w)))"

text \<open>
  \<open>_watch\<close> up to and including its call \<open>reload()\<close>: the variable \<open>rollupWatcher\<close> is declared,
  the filesystem watcher is subscribed, the \<open>close\<close> handler is registered and the debounced
  function is called once.
\<close>

definition watch_setup :: "env \<Rightarrow> world \<Rightarrow> world" where
  "watch_setup e w =
     emit ReloadCall
       (emit (RegisterHook ''close'')
          (emit (FsWatch (watchPatterns e (nitro w))) (w\<lparr>rollupWatcher := None\<rparr>)))"

text \<open>
  Modelled from the spec: the debouncing library is imported by \<open>build.ts\<close> and is not part
  of the source tree. \<open>_watch\<close> is the run in which the library answers the first call of
  \<open>reload\<close> with one execution of the function, as the spec's "startup performs one
  unconditional reloading cycle" says, and nothing else happens before it ends.
\<close>

definition watch_internal :: "env \<Rightarrow> unit async" where
  "watch_internal e w = reload_body e (watch_setup e w)"

section \<open>build\<close>

text \<open>
  \<open>.replace(/.html$/, '.mjs')\<close>: the dot of the expression is not escaped and stands for any
  character but a line terminator.
\<close>

definition replace_html_suffix :: "string \<Rightarrow> string" where
  "replace_html_suffix s =
     (let k = length s in
      if 5 \<le> k \<and> drop (k - 4) s = ''html'' \<and> s ! (k - 5) \<notin> set [CHR 0x0A, CHR 0x0D]
      then take (k - 5) s @ ''.mjs'' else s)"

text \<open>\<open>.replace(pattern, replacement)\<close> with a string pattern: the first occurrence only.\<close>

fun replace_first :: "string \<Rightarrow> string \<Rightarrow> string \<Rightarrow> string" where
  "replace_first pat rep [] = (if pat = [] then rep else [])"
| "replace_first pat rep (c # cs) =
     (if prefix pat (c # cs) then rep @ drop (length pat) (c # cs)
      else c # replace_first pat rep cs)"

definition htmlSrc :: "env \<Rightarrow> nitro \<Rightarrow> string" where
  "htmlSrc e n = resolve (cwd e) [buildDir (options n), ''views/app.template.html'']"

definition htmlDst :: "string \<Rightarrow> string" where
  "htmlDst s = replace_first ''app.template.mjs'' ''document.template.mjs'' (replace_html_suffix s)"

text \<open>
  \<open>nitro.vfs[src] || await fse.readFile(src, 'utf-8').catch(() => '')\<close>: the file is read
  when the overlay has no entry or an empty one.
\<close>

definition template_contents :: "env \<Rightarrow> string async" where
  "template_contents e w =
     (let fromDisk = (\<lambda>w. case readFile (htmlSrc e (nitro w)) w of
                             (Inl err, w') \<Rightarrow> (Inr [], w')
                           | (Inr c, w') \<Rightarrow> (Inr c, w'))
      in case vfs (nitro w) (htmlSrc e (nitro w)) of
           Some c \<Rightarrow> if c \<noteq> [] then (Inr c, w) else fromDisk w
         | None \<Rightarrow> fromDisk w)"

text \<open>The hook \<open>nitro:document\<close> is called with the template, which its subscribers may change.\<close>

definition compile_template :: "env \<Rightarrow> unit async" where
  "compile_template e w =
     (let htmlTemplate = \<lparr>src = htmlSrc e (nitro w), contents = [],
                          dst = htmlDst (htmlSrc e (nitro w))\<rparr>
      in await (template_contents e) (\<lambda>c.
           if c \<noteq> [] then
             await (callHook e ''nitro:document'') (\<lambda>_.
               let t = document_hook e (htmlTemplate\<lparr>contents := c\<rparr>)
               in writeFile e (dst t) (''export default '' @ serializeTemplate e (contents t)))
           else resolved ()) w)"

text \<open>\<open>build\<close>: the entry path of \<open>_build\<close>, or nothing from \<open>_watch\<close>.\<close>

definition build :: "env \<Rightarrow> string option async" where
  "build e =
     await (compile_template e) (\<lambda>_.
     await (\<lambda>w. (Inr (), w\<lparr>nitro := (nitro w)\<lparr>options :=
                    (options (nitro w))\<lparr>rollupConfig := getRollupConfig e (nitro w)\<rparr>\<rparr>\<rparr>)) (\<lambda>_.
     await (callHook e ''nitro:rollup:before'') (\<lambda>_. (\<lambda>w.
       if dev (options (nitro w))
       then await (watch_internal e) (\<lambda>_. resolved None) w
       else await (build_internal e) (\<lambda>entry. resolved (Some entry)) w))))"

section \<open>The route-type map as the spec describes it\<close>

text \<open>The type expression \<open>writeTypes\<close> forms for the handler module \<open>h\<close>.\<close>

definition handler_expression :: "string \<Rightarrow> string \<Rightarrow> string \<Rightarrow> string" where
  "handler_expression wd typesDir h = type_expression (strip_extension (relative wd typesDir h))"

text \<open>
  The type expressions of the handlers in \<open>mws\<close> that have a string-valued \<open>handler\<close> and the
  non-empty route \<open>r\<close>, in the order of \<open>mws\<close>.
\<close>

definition route_expressions :: "string \<Rightarrow> string \<Rightarrow> string \<Rightarrow> nitro_handler list \<Rightarrow> string list" where
  "route_expressions wd typesDir r mws =
     concat (map (\<lambda>mw. case handler mw of
                          HandlerPath h \<Rightarrow>
                            if route mw = Some r \<and> r \<noteq> [] then [handler_expression wd typesDir h] else []
                        | HandlerObject \<Rightarrow> []) mws)"

text \<open>
  A handler with a string-valued \<open>handler\<close> and a route has a route that is not the name of
  a property \<open>routeTypes\<close> inherits.
\<close>

definition own_route :: "nitro_handler \<Rightarrow> bool" where
  "own_route mw =
     (case handler mw of
        HandlerPath h \<Rightarrow> (case route mw of Some r \<Rightarrow> r \<notin> set object_prototype_keys | None \<Rightarrow> True)
      | HandlerObject \<Rightarrow> True)"

section \<open>Path segments\<close>

text \<open>A file or directory name: not empty, not \<open>.\<close> or \<open>..\<close>, and without a slash.\<close>

definition plain_segment :: "string \<Rightarrow> bool" where
  "plain_segment f = (f \<noteq> [] \<and> f \<noteq> ''.'' \<and> f \<noteq> ''..'' \<and> CHR ''/'' \<notin> set f)"

section \<open>Events and directories in the watch coordinator\<close>

text \<open>The filesystem watcher delivers the events of a list to the listener, one after another.\<close>

definition deliver :: "string list \<Rightarrow> world \<Rightarrow> world" where
  "deliver events w = foldl (\<lambda>w ev. on_all ev w) w events"

text \<open>
  The absolute path with the segments \<open>ds\<close>, and lists of segments that are names: the
  form of a configured scan directory, and of a glob pattern below a directory.
\<close>

definition absolute_path :: "string list \<Rightarrow> string" where
  "absolute_path ds = ''/'' @ join_with ''/'' ds"

definition plain_segments :: "string list \<Rightarrow> bool" where
  "plain_segments ds = (ds \<noteq> [] \<and> list_all plain_segment ds)"

section \<open>The debounced trigger\<close>

text \<open>
  Modelled from the spec: the debouncing wrapper (\<open>debounce\<close> of the package
  \<open>perfect-debounce\<close>) is imported by \<open>build.ts\<close> and is not part of the source tree. The spec
  describes it as a debounced single-flight trigger: "a boolean running flag plus one
  pending re-run requested flag; a caller either starts the task or, if one is running,
  sets the pending flag and returns immediately; completion checks the pending flag and
  restarts if set", with a debounce window in which "bursts of events collapse into one
  reload invocation". Time is counted in units. A call while no reload runs arms the
  timer for one window from now, replacing an armed timer; the reload starts when the
  timer is due. \<open>started\<close> and \<open>finished\<close> count the executions of the reload function.
\<close>

record debouncer =
  wait :: nat
  timer :: "nat option"
  running :: bool
  pending :: bool
  started :: nat
  finished :: nat

text \<open>The wrapper as \<open>debounce(fn, wait)\<close> returns it.\<close>

definition debounce :: "nat \<Rightarrow> debouncer" where
  "debounce w = \<lparr>wait = w, timer = None, running = False, pending = False, started = 0, finished = 0\<rparr>"

text \<open>
  What can happen to the wrapper: it is called at a time, time passes to a later time,
  or the running reload completes.
\<close>

datatype debounce_event = Call nat | Tick nat | Done

text \<open>Time reaches \<open>t\<close>: a timer that is due starts the reload.\<close>

definition advance :: "nat \<Rightarrow> debouncer \<Rightarrow> debouncer" where
  "advance t d =
     (case timer d of
        Some due \<Rightarrow>
          if due \<le> t then d\<lparr>timer := None, running := True, started := started d + 1\<rparr> else d
      | None \<Rightarrow> d)"

fun debounce_step :: "debouncer \<Rightarrow> debounce_event \<Rightarrow> debouncer" where
  "debounce_step d (Tick t) = advance t d"
| "debounce_step d (Call t) =
     (let d' = advance t d
      in if running d' then d'\<lparr>pending := True\<rparr> else d'\<lparr>timer := Some (t + wait d')\<rparr>)"
| "debounce_step d Done =
     (if running d then
        (if pending d
         then d\<lparr>pending := False, started := started d + 1, finished := finished d + 1\<rparr>
         else d\<lparr>running := False, finished := finished d + 1\<rparr>)
      else d)"

definition debounce_run :: "debounce_event list \<Rightarrow> debouncer \<Rightarrow> debouncer" where
  "debounce_run evs d = foldl debounce_step d evs"

text \<open>
  The calls of the trigger that the listener of \<open>_watch\<close> makes for filesystem events with
  their times of delivery: one call for each event in \<open>watchReloadEvents\<close>.
\<close>

definition reload_calls :: "(nat \<times> string) list \<Rightarrow> debounce_event list" where
  "reload_calls evs = map (\<lambda>(t, name). Call t) (filter (\<lambda>(t, name). name \<in> set watchReloadEvents) evs)"

text \<open>
  Times within one debounce window: each comes no earlier than the one before it, and
  before the timer armed by the one before it is due.
\<close>

fun within_window :: "nat \<Rightarrow> nat list \<Rightarrow> bool" where
  "within_window w (t # u # ts) = (t \<le> u \<and> u < t + w \<and> within_window w (u # ts))"
| "within_window w _ = True"

text \<open>
  At most one execution is under way, a pending request waits for a running execution,
  and no timer is armed while one runs.
\<close>

definition single_flight :: "debouncer \<Rightarrow> bool" where
  "single_flight d =
     (started d = finished d + (if running d then 1 else 0)
      \<and> (pending d \<longrightarrow> running d) \<and> (timer d \<noteq> None \<longrightarrow> \<not> running d))"

text \<open>The times of the events that the listener passes on.\<close>

definition qualifying_times :: "(nat \<times> string) list \<Rightarrow> nat list" where
  "qualifying_times evs = map fst (filter (\<lambda>(t, name). name \<in> set watchReloadEvents) evs)"

section \<open>Observing a run\<close>

text \<open>The calls made between the world \<open>w\<close> and the later world \<open>w'\<close>.\<close>

definition calls_from :: "world \<Rightarrow> world \<Rightarrow> effect list" where
  "calls_from w w' = drop (length (trace w)) (trace w')"

section \<open>Example inputs\<close>

text \<open>Collaborators of which no call rejects, with the working directory \<open>wd\<close>.\<close>

definition quiet_env :: "string \<Rightarrow> env" where
  "quiet_env wd =
     \<lparr>cwd = wd, now = ''2022-03-01T12:00:00.000Z'', emptyDir_error = (\<lambda>_. None),
      scanHandlers_result = Inr [], writeFile_error = (\<lambda>_. None), rollup_error = None,
      bundle_write_error = None, printFSTree_error = None, callHook_error = (\<lambda>_. None),
      document_hook = (\<lambda>t. t), serializeTemplate = (\<lambda>s. s),
      getRollupConfig = (\<lambda>_. \<lparr>rollup_output_dir = ''/proj/dist/server'', entryFileNames = ''index.mjs''\<rparr>),
      stringify = (\<lambda>b. ''{}''), GLOB_SCAN_PATTERN = ''**''\<rparr>"

text \<open>A \<open>nitro\<close> object with the output directories and the scanned handlers given.\<close>

definition example_nitro :: "string \<Rightarrow> string \<Rightarrow> string \<Rightarrow> nitro_handler list \<Rightarrow> nitro" where
  "example_nitro d pub srv hs =
     \<lparr>options = \<lparr>outputOpts = \<lparr>dir = d, publicDir = pub, serverDir = srv\<rparr>,
        buildDir = ''/proj/.nitro'', scanDirs = [''/proj''], handlers = [], dev = False,
        preset = ''node-server'',
        commands = \<lparr>preview = Some ''node ./server/index.mjs'', deploy = None\<rparr>,
        logLevel = 1,
        rollupConfig = \<lparr>rollup_output_dir = ''/proj/dist/server'', entryFileNames = ''index.mjs''\<rparr>\<rparr>,
      vfs = Map.empty, scannedHandlers = hs, unimport = None\<rparr>"

definition example_world :: "nitro \<Rightarrow> world" where
  "example_world n = \<lparr>nitro = n, files = Map.empty, trace = [], rollupWatcher = None\<rparr>"

section \<open>Properties of prepare\<close>

lemma cleared_append: "cleared (xs @ ys) = cleared xs @ cleared ys"
  by (induction xs rule: cleared.induct) simp_all

lemma cleanupDir_ok:
  "emptyDir_error e d = None \<Longrightarrow>
   cleanupDir e d w =
     (Inr (), w\<lparr>trace := trace w @ [EmptyDir d],
               files := (\<lambda>p. if inside (cwd e) d p then None else files w p)\<rparr>)"
  by (simp add: cleanupDir_def emit_def)

text \<open>
  When no call rejects, \<open>prepare\<close> empties the output root, and each of the two other
  directories unless its path string starts with the path string of the output root.
\<close>

lemma prepare_cleared:
  assumes "\<And>d. emptyDir_error e d = None"
  shows "fst (prepare e w) = Inr () \<and>
         cleared (trace (snd (prepare e w))) =
           cleared (trace w) @ [dir (outputOpts (options (nitro w)))]
           @ (if startsWith (publicDir (outputOpts (options (nitro w))))
                   (dir (outputOpts (options (nitro w))))
              then [] else [publicDir (outputOpts (options (nitro w)))])
           @ (if startsWith (serverDir (outputOpts (options (nitro w))))
                   (dir (outputOpts (options (nitro w))))
              then [] else [serverDir (outputOpts (options (nitro w)))])"
  by (simp add: prepare_def Let_def await_def cleanupDir_ok assms resolved_def cleared_append)

text \<open>
  Claim C3. \<open>prepare\<close> is to empty the public and the server output directory exactly when
  each is not nested under the output root. With the output root \<open>/out\<close>, the public
  directory \<open>/out-public\<close> and the server directory \<open>/out/server\<close>, the public directory is
  not nested under the output root, and yet \<open>prepare\<close> empties the output root only: a file
  left in \<open>/out-public\<close> is still there afterwards. The test in the code compares the path
  strings, and \<open>/out-public\<close> starts with \<open>/out\<close>.
\<close>

theorem prepare_sibling_prefix:
  "\<not> nested_under ''/out'' ''/out-public'' \<and>
   (case prepare (quiet_env ''/proj'')
           ((example_world (example_nitro ''/out'' ''/out-public'' ''/out/server'' []))
              \<lparr>files := [''/out-public/stale.js'' \<mapsto> ''old'']\<rparr>) of
      (r, w) \<Rightarrow> r = Inr () \<and> cleared (trace w) = [''/out'']
                \<and> files w ''/out-public/stale.js'' = Some ''old'')"
  by (simp add: nested_under_def segments_def prepare_def Let_def await_def cleanupDir_def emit_def
      resolved_def quiet_env_def example_nitro_def example_world_def startsWith_def inside_def
      resolve_def isAbsolute_def)

section \<open>Properties of writeTypes\<close>

lemma declaration_text_cong:
  assumes "scannedHandlers n' = scannedHandlers n" "handlers (options n') = handlers (options n)"
    "unimport n' = unimport n" "buildDir (options n') = buildDir (options n)"
  shows "declaration_text wd n' = declaration_text wd n"
  using assms
  by (simp add: declaration_text_def route_types_of_def declaration_lines_def split: sum.splits)

lemma writeTypes_result:
  "writeTypes e w =
     (case declaration_text (cwd e) (nitro w) of
        Inl err \<Rightarrow> (Inl err, w)
      | Inr text \<Rightarrow>
          (case writeFile_error e (types_path (nitro w)) of
             Some err \<Rightarrow> (Inl err, w\<lparr>trace := trace w @ [WriteFile (types_path (nitro w)) text]\<rparr>)
           | None \<Rightarrow> (Inr (), w\<lparr>trace := trace w @ [WriteFile (types_path (nitro w)) text],
                                 files := (files w)(types_path (nitro w) \<mapsto> text)\<rparr>)))"
  by (simp add: writeTypes_def writeFile_def rejected_def emit_def split: sum.splits option.splits)

text \<open>
  Claim C4. Two invocations of \<open>writeTypes\<close> in worlds with the same scanned handlers, the
  same configured handlers and the same auto-import text, under one build directory and
  one working directory, compute the same declaration text, end the same way and make
  the same call of \<open>writeFile\<close>; when the write succeeds, the declaration file holds the
  same text after either. Invoking \<open>writeTypes\<close> a second time leaves the files as the
  first invocation left them.
\<close>

theorem writeTypes_idempotent:
  assumes "scannedHandlers (nitro w') = scannedHandlers (nitro w)"
    and "handlers (options (nitro w')) = handlers (options (nitro w))"
    and "unimport (nitro w') = unimport (nitro w)"
    and "buildDir (options (nitro w')) = buildDir (options (nitro w))"
  shows "declaration_text (cwd e) (nitro w') = declaration_text (cwd e) (nitro w)
       \<and> fst (writeTypes e w') = fst (writeTypes e w)
       \<and> calls_from w' (snd (writeTypes e w')) = calls_from w (snd (writeTypes e w))
       \<and> (fst (writeTypes e w) = Inr () \<longrightarrow>
            files (snd (writeTypes e w')) (types_path (nitro w'))
              = files (snd (writeTypes e w)) (types_path (nitro w)))
       \<and> files (snd (writeTypes e (snd (writeTypes e w)))) = files (snd (writeTypes e w))"
proof -
  have t: "declaration_text (cwd e) (nitro w') = declaration_text (cwd e) (nitro w)"
    using assms by (rule declaration_text_cong)
  have p: "types_path (nitro w') = types_path (nitro w)"
    using assms(4) by (simp add: types_path_def)
  have r: "fst (writeTypes e w') = fst (writeTypes e w)"
    by (simp add: writeTypes_result t p split: sum.splits option.splits)
  have c: "calls_from w' (snd (writeTypes e w')) = calls_from w (snd (writeTypes e w))"
    by (simp add: writeTypes_result calls_from_def t p split: sum.splits option.splits)
  have f: "fst (writeTypes e w) = Inr () \<longrightarrow>
            files (snd (writeTypes e w')) (types_path (nitro w'))
              = files (snd (writeTypes e w)) (types_path (nitro w))"
    by (simp add: writeTypes_result t p split: sum.splits option.splits)
  have n: "nitro (snd (writeTypes e w)) = nitro w"
    by (simp add: writeTypes_result split: sum.splits option.splits)
  have i: "files (snd (writeTypes e (snd (writeTypes e w)))) = files (snd (writeTypes e w))"
    by (simp add: writeTypes_result [of e "snd (writeTypes e w)"] n)
       (simp add: writeTypes_result split: sum.splits option.splits)
  from t r c f i show ?thesis by blast
qed

text \<open>
  The theorem at two worlds that differ in their output directories and agree on the
  handlers, the auto-import text and the build directory.
\<close>

theorem writeTypes_idempotent_witness:
  "declaration_text ''/proj''
       (example_nitro ''/proj/dist'' ''/proj/dist/public'' ''/proj/dist/server''
         [\<lparr>route = Some ''/api/hello'', handler = HandlerPath ''/src/api/hello.ts''\<rparr>])
     = declaration_text ''/proj''
       (example_nitro ''/out'' ''/out/public'' ''/out/server''
         [\<lparr>route = Some ''/api/hello'', handler = HandlerPath ''/src/api/hello.ts''\<rparr>])"
  using writeTypes_idempotent [of
      "example_world (example_nitro ''/proj/dist'' ''/proj/dist/public'' ''/proj/dist/server''
         [\<lparr>route = Some ''/api/hello'', handler = HandlerPath ''/src/api/hello.ts''\<rparr>])"
      "example_world (example_nitro ''/out'' ''/out/public'' ''/out/server''
         [\<lparr>route = Some ''/api/hello'', handler = HandlerPath ''/src/api/hello.ts''\<rparr>])"
      "quiet_env ''/proj''"]
  by (simp add: example_world_def example_nitro_def quiet_env_def)

section \<open>The entries of the route-type map\<close>

lemma map_of_push_route:
  "map_of (push_route r t rt) k =
     (if k = r then Some ((case map_of rt r of None \<Rightarrow> [] | Some ts \<Rightarrow> ts) @ [t]) else map_of rt k)"
  by (induction rt) auto

lemma keys_push_route: "fst ` set (push_route r t rt) = insert r (fst ` set rt)"
  by (induction r t rt rule: push_route.induct) auto

lemma distinct_push_route:
  "distinct (map fst rt) \<Longrightarrow> distinct (map fst (push_route r t rt))"
proof (induction rt)
  case Nil
  then show ?case by simp
next
  case (Cons kv rt)
  obtain k ts where kv: "kv = (k, ts)" by (cases kv)
  show ?case
  proof (cases "k = r")
    case True
    with Cons.prems kv show ?thesis by simp
  next
    case False
    have "k \<notin> fst ` set (push_route r t rt)"
      using Cons.prems kv False by (simp add: keys_push_route)
    with Cons kv False show ?thesis by simp
  qed
qed

lemma collect_skip:
  "handler mw = HandlerObject \<or> \<not> truthy (route mw) \<Longrightarrow>
   collect_route_types wd td (mw # rest) rt = collect_route_types wd td rest rt"
  by (auto simp: truthy_def split: handler_ref.splits option.splits)

lemma collect_append:
  "handler mw = HandlerPath h \<Longrightarrow> route mw = Some r \<Longrightarrow> r \<noteq> [] \<Longrightarrow>
   r \<notin> set object_prototype_keys \<Longrightarrow>
   collect_route_types wd td (mw # rest) rt =
     collect_route_types wd td rest (push_route r (handler_expression wd td h) rt)"
  by (simp add: handler_expression_def)

lemma collect_entries:
  "list_all own_route mws \<Longrightarrow>
   \<exists>rt'. collect_route_types wd td mws rt = Inr rt'
     \<and> (distinct (map fst rt) \<longrightarrow> distinct (map fst rt'))
     \<and> (\<forall>k. map_of rt' k =
           (if route_expressions wd td k mws = [] then map_of rt k
            else Some ((case map_of rt k of None \<Rightarrow> [] | Some ts \<Rightarrow> ts) @ route_expressions wd td k mws)))"
proof (induction mws arbitrary: rt)
  case Nil
  then show ?case by (simp add: route_expressions_def)
next
  case (Cons mw mws)
  then have own: "own_route mw" and rest: "list_all own_route mws" by simp_all
  show ?case
  proof (cases "handler mw = HandlerObject \<or> \<not> truthy (route mw)")
    case True
    then have skip: "collect_route_types wd td (mw # mws) rt = collect_route_types wd td mws rt"
      by (rule collect_skip)
    from True have e: "route_expressions wd td k (mw # mws) = route_expressions wd td k mws" for k
      by (auto simp: route_expressions_def truthy_def split: handler_ref.splits option.splits)
    from Cons.IH [OF rest, of rt] show ?thesis
      by (simp only: skip e)
  next
    case False
    then obtain h r where h: "handler mw = HandlerPath h" and r: "route mw = Some r" "r \<noteq> []"
      by (cases "handler mw"; cases "route mw") (auto simp: truthy_def)
    from own h r have nk: "r \<notin> set object_prototype_keys"
      by (simp add: own_route_def)
    let ?t = "handler_expression wd td h"
    have step: "collect_route_types wd td (mw # mws) rt =
                  collect_route_types wd td mws (push_route r ?t rt)"
      using h r nk by (rule collect_append)
    have e: "route_expressions wd td k (mw # mws) =
               (if k = r then ?t # route_expressions wd td k mws else route_expressions wd td k mws)" for k
      using h r by (auto simp: route_expressions_def)
    from Cons.IH [OF rest, of "push_route r ?t rt"]
    obtain rt' where rt': "collect_route_types wd td mws (push_route r ?t rt) = Inr rt'"
      and d: "distinct (map fst (push_route r ?t rt)) \<longrightarrow> distinct (map fst rt')"
      and m: "\<And>k. map_of rt' k =
           (if route_expressions wd td k mws = [] then map_of (push_route r ?t rt) k
            else Some ((case map_of (push_route r ?t rt) k of None \<Rightarrow> [] | Some ts \<Rightarrow> ts)
                        @ route_expressions wd td k mws))"
      by blast
    have "distinct (map fst rt) \<longrightarrow> distinct (map fst rt')"
      using d by (simp add: distinct_push_route)
    moreover have "map_of rt' k =
           (if route_expressions wd td k (mw # mws) = [] then map_of rt k
            else Some ((case map_of rt k of None \<Rightarrow> [] | Some ts \<Rightarrow> ts)
                        @ route_expressions wd td k (mw # mws)))" for k
      by (simp add: m e map_of_push_route)
    ultimately show ?thesis
      unfolding step rt' by blast
  qed
qed


lemma example_declaration_text:
  "declaration_text ''/proj''
     (example_nitro ''/proj/dist'' ''/proj/dist/public'' ''/proj/dist/server''
        [\<lparr>route = Some ''/api/hello'', handler = HandlerPath ''/src/api/hello.ts''\<rparr>])
   = Inr (join_with ''\<newline>''
       [''// Generated by nitro'',
        ''declare module 'nitropack' {'',
        ''  type Awaited<T> = T extends PromiseLike<infer U> ? Awaited<U> : T'',
        ''  interface InternalApi {'',
        ''    '' @ apostrophe @ ''/api/hello'' @ apostrophe
          @ '': Awaited<ReturnType<typeof import('' @ apostrophe @ ''../../../src/api/hello''
          @ apostrophe @ '').default>>'',
        ''  }'',
        ''}'',
        ''export {}''])"
  by (simp add: declaration_text_def route_types_of_def example_nitro_def join_def normalize_path_def
      isAbsolute_def object_prototype_keys_def relative_def resolve_def segments_def
      type_expression_def is_lower_def declaration_lines_def object_entries_def array_index_def
      is_digit_def)

text \<open>
  A route that is a URL path begins with a slash, and no inherited property name does.
\<close>

lemma slash_route_own:
  "(case route mw of None \<Rightarrow> True | Some r \<Rightarrow> r = [] \<or> hd r = CHR ''/'') \<Longrightarrow> own_route mw"
  by (auto simp: own_route_def object_prototype_keys_def split: handler_ref.splits option.splits)

text \<open>
  What the loop does for routes that are not inherited names. A merged handler whose
  \<open>handler\<close> is not a string or whose route is missing or empty is passed over, and the loop
  goes on as if it were not there. When no handler with both has a route that names a
  property inherited from the object prototype (as when every route begins with a
  slash), the loop ends without an error, and the map it builds has, for every route,
  exactly the type expressions of the handlers with a string-valued \<open>handler\<close> and that
  route, in their order, and no entry for a route without such a handler. For the scanned
  handler \<open>/api/hello\<close> implemented by \<open>/src/api/hello.ts\<close>, the build directory
  \<open>/proj/.nitro\<close> and no configured handler, the declaration text is the one shown.
\<close>

lemma writeTypes_route_entries:
  "(handler mw = HandlerObject \<or> \<not> truthy (route mw) \<longrightarrow>
      collect_route_types wd td (mw # rest) rt = collect_route_types wd td rest rt)
   \<and> (list_all own_route (scannedHandlers n @ handlers (options n)) \<longrightarrow>
        (\<exists>routeTypes. route_types_of wd n = Inr routeTypes
           \<and> distinct (map fst routeTypes)
           \<and> (\<forall>r. map_of routeTypes r =
                 (if route_expressions wd (join [buildDir (options n), ''types'']) r
                        (scannedHandlers n @ handlers (options n)) = []
                  then None
                  else Some (route_expressions wd (join [buildDir (options n), ''types'']) r
                               (scannedHandlers n @ handlers (options n)))))))
   \<and> declaration_text ''/proj''
       (example_nitro ''/proj/dist'' ''/proj/dist/public'' ''/proj/dist/server''
          [\<lparr>route = Some ''/api/hello'', handler = HandlerPath ''/src/api/hello.ts''\<rparr>])
     = Inr (join_with ''\<newline>''
         [''// Generated by nitro'',
          ''declare module 'nitropack' {'',
          ''  type Awaited<T> = T extends PromiseLike<infer U> ? Awaited<U> : T'',
          ''  interface InternalApi {'',
          ''    '' @ apostrophe @ ''/api/hello'' @ apostrophe
            @ '': Awaited<ReturnType<typeof import('' @ apostrophe @ ''../../../src/api/hello''
            @ apostrophe @ '').default>>'',
          ''  }'',
          ''}'',
          ''export {}''])"
proof (intro conjI impI)
  assume "handler mw = HandlerObject \<or> \<not> truthy (route mw)"
  then show "collect_route_types wd td (mw # rest) rt = collect_route_types wd td rest rt"
    by (rule collect_skip)
next
  assume "list_all own_route (scannedHandlers n @ handlers (options n))"
  from collect_entries [OF this, of wd "join [buildDir (options n), ''types'']" "[]"]
  show "\<exists>routeTypes. route_types_of wd n = Inr routeTypes
           \<and> distinct (map fst routeTypes)
           \<and> (\<forall>r. map_of routeTypes r =
                 (if route_expressions wd (join [buildDir (options n), ''types'']) r
                        (scannedHandlers n @ handlers (options n)) = []
                  then None
                  else Some (route_expressions wd (join [buildDir (options n), ''types'']) r
                               (scannedHandlers n @ handlers (options n)))))"
    by (auto simp: route_types_of_def)
next
  show "declaration_text ''/proj''
       (example_nitro ''/proj/dist'' ''/proj/dist/public'' ''/proj/dist/server''
          [\<lparr>route = Some ''/api/hello'', handler = HandlerPath ''/src/api/hello.ts''\<rparr>])
     = Inr (join_with ''\<newline>''
         [''// Generated by nitro'',
          ''declare module 'nitropack' {'',
          ''  type Awaited<T> = T extends PromiseLike<infer U> ? Awaited<U> : T'',
          ''  interface InternalApi {'',
          ''    '' @ apostrophe @ ''/api/hello'' @ apostrophe
            @ '': Awaited<ReturnType<typeof import('' @ apostrophe @ ''../../../src/api/hello''
            @ apostrophe @ '').default>>'',
          ''  }'',
          ''}'',
          ''export {}''])"
    by (rule example_declaration_text)
qed

text \<open>
  The lemma at a handler without a route, and at three handlers for the route
  \<open>/api/hello\<close>, the second of which has no string-valued \<open>handler\<close>.
\<close>

lemma writeTypes_route_entries_example:
  "collect_route_types ''/proj'' ''/proj/.nitro/types''
      [\<lparr>route = None, handler = HandlerPath ''/src/plugin.ts''\<rparr>] []
     = Inr []
   \<and> list_all own_route
        [\<lparr>route = Some ''/api/hello'', handler = HandlerPath ''/src/api/hello.ts''\<rparr>,
         \<lparr>route = Some ''/api/hello'', handler = HandlerObject\<rparr>,
         \<lparr>route = Some ''/api/hello'', handler = HandlerPath ''/src/api/hello.post.ts''\<rparr>]
   \<and> (\<exists>routeTypes.
         route_types_of ''/proj''
           (example_nitro ''/proj/dist'' ''/proj/dist/public'' ''/proj/dist/server''
             [\<lparr>route = Some ''/api/hello'', handler = HandlerPath ''/src/api/hello.ts''\<rparr>,
              \<lparr>route = Some ''/api/hello'', handler = HandlerObject\<rparr>,
              \<lparr>route = Some ''/api/hello'', handler = HandlerPath ''/src/api/hello.post.ts''\<rparr>])
           = Inr routeTypes
         \<and> map_of routeTypes ''/api/hello'' =
             Some [type_expression ''../../../src/api/hello'',
                   type_expression ''../../../src/api/hello.post''])"
proof -
  let ?mw = "\<lparr>route = None, handler = HandlerPath ''/src/plugin.ts''\<rparr>"
  let ?hs = "[\<lparr>route = Some ''/api/hello'', handler = HandlerPath ''/src/api/hello.ts''\<rparr>,
              \<lparr>route = Some ''/api/hello'', handler = HandlerObject\<rparr>,
              \<lparr>route = Some ''/api/hello'', handler = HandlerPath ''/src/api/hello.post.ts''\<rparr>]"
  let ?n = "example_nitro ''/proj/dist'' ''/proj/dist/public'' ''/proj/dist/server'' ?hs"
  note inst = writeTypes_route_entries [of ?mw "''/proj''" "''/proj/.nitro/types''" "[]" "[]" ?n]
  have skip: "collect_route_types ''/proj'' ''/proj/.nitro/types'' [?mw] [] = Inr []"
    using inst by (simp add: truthy_def)
  have own: "list_all own_route ?hs"
    by (simp add: own_route_def object_prototype_keys_def)
  then have own': "list_all own_route (scannedHandlers ?n @ handlers (options ?n))"
    by (simp add: example_nitro_def)
  have e: "route_expressions ''/proj'' (join [buildDir (options ?n), ''types'']) ''/api/hello''
             (scannedHandlers ?n @ handlers (options ?n))
           = [type_expression ''../../../src/api/hello'',
              type_expression ''../../../src/api/hello.post'']"
    by (simp add: route_expressions_def handler_expression_def example_nitro_def join_def
        normalize_path_def isAbsolute_def relative_def resolve_def segments_def is_lower_def)
  from inst own' obtain routeTypes where
    "route_types_of ''/proj'' ?n = Inr routeTypes"
    "map_of routeTypes ''/api/hello'' =
       (if route_expressions ''/proj'' (join [buildDir (options ?n), ''types'']) ''/api/hello''
              (scannedHandlers ?n @ handlers (options ?n)) = []
        then None
        else Some (route_expressions ''/proj'' (join [buildDir (options ?n), ''types'']) ''/api/hello''
                     (scannedHandlers ?n @ handlers (options ?n))))"
    by blast
  then have "route_types_of ''/proj'' ?n = Inr routeTypes
      \<and> map_of routeTypes ''/api/hello'' =
             Some [type_expression ''../../../src/api/hello'',
                   type_expression ''../../../src/api/hello.post'']"
    by (simp only: e) simp
  then have "\<exists>routeTypes. route_types_of ''/proj'' ?n = Inr routeTypes
      \<and> map_of routeTypes ''/api/hello'' =
             Some [type_expression ''../../../src/api/hello'',
                   type_expression ''../../../src/api/hello.post'']"
    by blast
  with skip own show ?thesis by blast
qed

text \<open>
  Claim C5. Every handler with a string-valued \<open>handler\<close> and a route is to have its type
  expression appended to the entry of its route, and the others are to be skipped
  without error. With the scanned handlers \<open>/ok\<close> (implemented by \<open>/src/ok.ts\<close>) and
  \<open>constructor\<close> (implemented by \<open>/src/x.ts\<close>), the second has both, and yet the loop throws a
  \<open>TypeError\<close> at it: \<open>routeTypes['constructor']\<close> is the function every plain object
  inherits, which is truthy and has no \<open>push\<close>. \<open>writeTypes\<close> rejects, makes no call of
  \<open>writeFile\<close> and leaves the world as it was, so the entry for \<open>/ok\<close>, which the loop builds
  when that handler stands alone, is lost as well.
\<close>

theorem writeTypes_inherited_route_throws:
  "\<not> own_route \<lparr>route = Some ''constructor'', handler = HandlerPath ''/src/x.ts''\<rparr>
   \<and> route_types_of ''/proj''
        (example_nitro ''/proj/dist'' ''/proj/dist/public'' ''/proj/dist/server''
           [\<lparr>route = Some ''/ok'', handler = HandlerPath ''/src/ok.ts''\<rparr>,
            \<lparr>route = Some ''constructor'', handler = HandlerPath ''/src/x.ts''\<rparr>])
      = Inl (TypeError ''routeTypes[mw.route].push is not a function'')
   \<and> writeTypes (quiet_env ''/proj'')
        (example_world
           (example_nitro ''/proj/dist'' ''/proj/dist/public'' ''/proj/dist/server''
              [\<lparr>route = Some ''/ok'', handler = HandlerPath ''/src/ok.ts''\<rparr>,
               \<lparr>route = Some ''constructor'', handler = HandlerPath ''/src/x.ts''\<rparr>]))
      = (Inl (TypeError ''routeTypes[mw.route].push is not a function''),
         example_world
           (example_nitro ''/proj/dist'' ''/proj/dist/public'' ''/proj/dist/server''
              [\<lparr>route = Some ''/ok'', handler = HandlerPath ''/src/ok.ts''\<rparr>,
               \<lparr>route = Some ''constructor'', handler = HandlerPath ''/src/x.ts''\<rparr>]))
   \<and> route_types_of ''/proj''
        (example_nitro ''/proj/dist'' ''/proj/dist/public'' ''/proj/dist/server''
           [\<lparr>route = Some ''/ok'', handler = HandlerPath ''/src/ok.ts''\<rparr>])
      = Inr [(''/ok'', [''Awaited<ReturnType<typeof import('' @ apostrophe @ ''../../../src/ok''
                         @ apostrophe @ '').default>>''])]"
proof -
  let ?hs = "[\<lparr>route = Some ''/ok'', handler = HandlerPath ''/src/ok.ts''\<rparr>,
              \<lparr>route = Some ''constructor'', handler = HandlerPath ''/src/x.ts''\<rparr>]"
  let ?n = "example_nitro ''/proj/dist'' ''/proj/dist/public'' ''/proj/dist/server'' ?hs"
  have o: "\<not> own_route \<lparr>route = Some ''constructor'', handler = HandlerPath ''/src/x.ts''\<rparr>"
    by (simp add: own_route_def object_prototype_keys_def)
  have r: "route_types_of ''/proj'' ?n = Inl (TypeError ''routeTypes[mw.route].push is not a function'')"
    by (simp add: route_types_of_def example_nitro_def object_prototype_keys_def)
  have w: "writeTypes (quiet_env ''/proj'') (example_world ?n)
      = (Inl (TypeError ''routeTypes[mw.route].push is not a function''), example_world ?n)"
    using r by (simp add: writeTypes_def declaration_text_def rejected_def quiet_env_def example_world_def)
  have k: "route_types_of ''/proj''
        (example_nitro ''/proj/dist'' ''/proj/dist/public'' ''/proj/dist/server''
           [\<lparr>route = Some ''/ok'', handler = HandlerPath ''/src/ok.ts''\<rparr>])
      = Inr [(''/ok'', [''Awaited<ReturnType<typeof import('' @ apostrophe @ ''../../../src/ok''
                         @ apostrophe @ '').default>>''])]"
    by (simp add: route_types_of_def example_nitro_def object_prototype_keys_def join_def
        normalize_path_def isAbsolute_def relative_def resolve_def segments_def type_expression_def
        is_lower_def)
  from o r w k show ?thesis by blast
qed

section \<open>The last segment of a joined or resolved path\<close>

lemma split_on_not_Nil: "split_on c xs \<noteq> []"
  by (induction xs) (auto split: list.splits)

lemma split_on_append: "split_on c (xs @ c # ys) = split_on c xs @ split_on c ys"
proof (induction xs)
  case Nil
  then show ?case by simp
next
  case (Cons x xs)
  obtain s ss where "split_on c xs = s # ss"
    using split_on_not_Nil [of c xs] by (cases "split_on c xs") auto
  with Cons show ?case by simp
qed

lemma split_on_absent: "c \<notin> set ys \<Longrightarrow> split_on c ys = [ys]"
  by (induction ys) auto

lemma normalizeString_append:
  "normalizeString a acc (xs @ ys) = normalizeString a (normalizeString a acc xs) ys"
  by (induction a acc xs rule: normalizeString.induct) auto

lemma join_with_snoc:
  "join_with sep (xs @ [s]) = (if xs = [] then s else join_with sep xs @ sep @ s)"
  by (induction sep xs rule: join_with.induct) auto

lemma last_join_with_snoc: "s \<noteq> [] \<Longrightarrow> last (join_with sep (xs @ [s])) = last s"
  by (simp add: join_with_snoc)

lemma join_with_snoc_not_Nil: "s \<noteq> [] \<Longrightarrow> join_with sep (xs @ [s]) \<noteq> []"
  by (simp add: join_with_snoc)

lemma last_normalize:
  assumes "plain_segment f"
  shows "last (normalize_path (q @ CHR ''/'' # f)) = last f"
proof -
  let ?p = "q @ CHR ''/'' # f"
  from assms have f: "f \<noteq> []" "f \<noteq> ''.''" "f \<noteq> ''..''" "CHR ''/'' \<notin> set f"
    by (simp_all add: plain_segment_def)
  have sp: "split_on CHR ''/'' ?p = split_on CHR ''/'' q @ [f]"
    by (simp add: split_on_append split_on_absent f)
  have ns: "normalizeString a [] (split_on CHR ''/'' ?p)
              = normalizeString a [] (split_on CHR ''/'' q) @ [f]" for a
    by (simp add: sp normalizeString_append f)
  have tr: "last ?p \<noteq> CHR ''/''"
    using f by (cases f rule: rev_cases) auto
  show ?thesis
    using tr f by (simp add: normalize_path_def Let_def ns join_with_snoc)
qed

lemma last_join:
  assumes "plain_segment f"
  shows "last (join [b, g @ CHR ''/'' # f]) = last f"
proof (cases "b = []")
  case True
  then show ?thesis by (simp add: join_def last_normalize [OF assms])
next
  case False
  have "b @ CHR ''/'' # g @ CHR ''/'' # f = (b @ CHR ''/'' # g) @ CHR ''/'' # f" by simp
  with False show ?thesis
    by (simp add: join_def) (metis last_normalize [OF assms] append_Cons append_assoc)
qed

lemma resolve_scan_shape:
  "\<exists>q. snd (resolve_scan ps acc) = q @ acc \<and> (q = [] \<or> last q = CHR ''/'')"
proof (induction ps arbitrary: acc)
  case Nil
  then show ?case by simp
next
  case (Cons p ps)
  show ?case
  proof (cases "p = []")
    case True
    with Cons show ?thesis by simp
  next
    case False
    show ?thesis
    proof (cases "isAbsolute p")
      case True
      with False show ?thesis
        by (simp add: exI [of _ "p @ ''/''"])
    next
      case abs: False
      from Cons [of "p @ ''/'' @ acc"] obtain q where
        "snd (resolve_scan ps (p @ ''/'' @ acc)) = q @ p @ ''/'' @ acc" by blast
      with False abs show ?thesis
        by (simp add: exI [of _ "q @ p @ ''/''"])
    qed
  qed
qed

lemma last_resolve:
  assumes "plain_segment f"
  shows "last (resolve wd (args @ [f])) = last f"
proof -
  from assms have f: "f \<noteq> []" "f \<noteq> ''.''" "f \<noteq> ''..''" "CHR ''/'' \<notin> set f"
    by (simp_all add: plain_segment_def)
  have na: "\<not> isAbsolute f"
    using f by (cases f) (auto simp: isAbsolute_def)
  obtain b raw where r: "resolve_scan (rev args @ [wd]) (f @ ''/'') = (b, raw)"
    by (cases "resolve_scan (rev args @ [wd]) (f @ ''/'')")
  with resolve_scan_shape [of "rev args @ [wd]" "f @ ''/''"] obtain q where
    raw: "raw = q @ f @ ''/''" and q: "q = [] \<or> last q = CHR ''/''" by auto
  have sp: "\<exists>X. split_on CHR ''/'' raw = X @ [f, []]"
  proof (cases "q = []")
    case True
    then show ?thesis
      using split_on_append [of "CHR ''/''" f "[]"] f by (simp add: raw split_on_absent)
  next
    case False
    with q obtain q' where "q = q' @ ''/''"
      by (cases q rule: rev_cases) auto
    then have "raw = q' @ CHR ''/'' # (f @ CHR ''/'' # [])" by (simp add: raw)
    then show ?thesis
      by (simp only: split_on_append) (simp add: split_on_absent f)
  qed
  then obtain X where X: "split_on CHR ''/'' raw = X @ [f, []]" ..
  have ns: "normalizeString a [] (split_on CHR ''/'' raw) = normalizeString a [] X @ [f]" for a
    by (simp add: X normalizeString_append f)
  show ?thesis
    using f na r by (simp add: resolve_def ns join_with_snoc)
qed

text \<open>The declaration file and the manifest are different files.\<close>

lemma types_path_not_manifest_path: "types_path n \<noteq> manifest_path e n'"
proof -
  have "last (types_path n) = CHR ''s''"
    using last_join [of "''nitro.d.ts''" "buildDir (options n)" "''types''"]
    by (simp add: types_path_def plain_segment_def)
  moreover have "last (manifest_path e n') = CHR ''n''"
    using last_resolve [of "''nitro.json''" "cwd e" "[dir (outputOpts (options n'))]"]
    by (simp add: manifest_path_def plain_segment_def)
  ultimately show ?thesis by auto
qed

section \<open>The one-shot build when the bundler rejects\<close>

lemma scanHandlers_ok:
  "scanHandlers_result e = Inr hs \<Longrightarrow>
   scanHandlers e w = (Inr (), w\<lparr>trace := trace w @ [ScanHandlers],
                               nitro := (nitro w)\<lparr>scannedHandlers := hs\<rparr>\<rparr>)"
  by (simp add: scanHandlers_def emit_def)

lemma log_result: "log lvl msg w = (Inr (), w\<lparr>trace := trace w @ [Log lvl msg]\<rparr>)"
  by (simp add: log_def call_def emit_def)

lemma rollup_build_rejects:
  "rollup_error e = Some err \<Longrightarrow>
   rollup_build e w =
     (Inl err, w\<lparr>trace := trace w @ [Rollup, Log Failure (''Rollup error: '' @ message err)]\<rparr>)"
  by (simp add: rollup_build_def call_def emit_def await_def log_result rejected_def)

lemma build_internal_rollup_rejects_cases:
  assumes "rollup_error e = Some err"
  shows "build_internal e w =
     (case scanHandlers e w of
        (Inl x, w1) \<Rightarrow> (Inl x, w1)
      | (Inr u, w1) \<Rightarrow>
          (case writeTypes e w1 of
             (Inl x, w2) \<Rightarrow> (Inl x, w2)
           | (Inr u, w2) \<Rightarrow>
               (Inl err, w2\<lparr>trace := trace w2 @ [Log Start ''Building server...'', Rollup,
                                   Log Failure (''Rollup error: '' @ message err)]\<rparr>)))"
  using assms
  by (simp add: build_internal_def await_def log_result rollup_build_rejects
      split: prod.splits sum.splits)

lemma scanHandlers_shape:
  "trace (snd (scanHandlers e w)) = trace w @ [ScanHandlers]
   \<and> files (snd (scanHandlers e w)) = files w
   \<and> options (nitro (snd (scanHandlers e w))) = options (nitro w)"
  by (simp add: scanHandlers_def emit_def split: sum.splits)

lemma writeTypes_shape:
  "\<exists>cs. trace (snd (writeTypes e w)) = trace w @ cs
     \<and> set cs \<subseteq> {WriteFile (types_path (nitro w)) text | text. True}
     \<and> (\<forall>p. p \<noteq> types_path (nitro w) \<longrightarrow> files (snd (writeTypes e w)) p = files w p)"
  by (auto simp: writeTypes_result split: sum.splits option.splits)

text \<open>
  Claim C1. Let the bundler's one-shot build reject with the error \<open>err\<close>. When the scanner
  and \<open>writeTypes\<close> have succeeded, \<open>_build\<close> rejects with \<open>err\<close>, and after their calls it
  has made exactly three more: the start message, the call of the bundler, and the error
  message \<open>Rollup error: \<close> followed by the message of \<open>err\<close>. In every case the bundle's
  write step is not called, the hook \<open>nitro:compiled\<close> is not called, \<open>writeFile\<close> is not called
  for the manifest, and the manifest file is as it was before the run. What the run did
  before the bundler stays done: the handlers are scanned and the declaration file is
  written.
\<close>

theorem build_internal_rollup_rejects:
  assumes "rollup_error e = Some err"
  shows "(fst (scanHandlers e w) = Inr () \<and> fst (writeTypes e (snd (scanHandlers e w))) = Inr ()
            \<longrightarrow> fst (build_internal e w) = Inl err
              \<and> calls_from w (snd (build_internal e w)) =
                  calls_from w (snd (writeTypes e (snd (scanHandlers e w))))
                  @ [Log Start ''Building server...'', Rollup,
                     Log Failure (''Rollup error: '' @ message err)])
       \<and> BundleWrite \<notin> set (calls_from w (snd (build_internal e w)))
       \<and> CallHook ''nitro:compiled'' \<notin> set (calls_from w (snd (build_internal e w)))
       \<and> (\<forall>c. WriteFile (manifest_path e (nitro w)) c
                 \<notin> set (calls_from w (snd (build_internal e w))))
       \<and> files (snd (build_internal e w)) (manifest_path e (nitro w))
           = files w (manifest_path e (nitro w))"
proof -
  obtain r1 w1 where s1: "scanHandlers e w = (r1, w1)" by (cases "scanHandlers e w")
  obtain r2 w2 where s2: "writeTypes e w1 = (r2, w2)" by (cases "writeTypes e w1")
  from scanHandlers_shape [of e w] s1
  have t1: "trace w1 = trace w @ [ScanHandlers]" and f1: "files w1 = files w"
    and o1: "options (nitro w1) = options (nitro w)" by simp_all
  from writeTypes_shape [of e w1] s2 obtain cs where
    t2: "trace w2 = trace w1 @ cs"
    and cs: "set cs \<subseteq> {WriteFile (types_path (nitro w1)) text | text. True}"
    and f2: "\<And>p. p \<noteq> types_path (nitro w1) \<Longrightarrow> files w2 p = files w1 p"
    by auto
  have mp: "manifest_path e (nitro w) \<noteq> types_path (nitro w1)"
    using types_path_not_manifest_path [of "nitro w1" e "nitro w"] by simp
  have cs_bw: "BundleWrite \<notin> set cs" and cs_hook: "CallHook ''nitro:compiled'' \<notin> set cs"
    and cs_mf: "\<And>c. WriteFile (manifest_path e (nitro w)) c \<notin> set cs"
    using cs mp by auto
  have b: "build_internal e w =
     (case r1 of Inl x \<Rightarrow> (Inl x, w1)
      | Inr u \<Rightarrow> (case r2 of Inl x \<Rightarrow> (Inl x, w2)
          | Inr u \<Rightarrow> (Inl err, w2\<lparr>trace := trace w2 @ [Log Start ''Building server...'', Rollup,
                                   Log Failure (''Rollup error: '' @ message err)]\<rparr>)))"
    by (simp add: build_internal_rollup_rejects_cases [OF assms] s1 s2 split: sum.splits)
  have first: "fst (scanHandlers e w) = Inr () \<and> fst (writeTypes e (snd (scanHandlers e w))) = Inr ()
            \<longrightarrow> fst (build_internal e w) = Inl err
              \<and> calls_from w (snd (build_internal e w)) =
                  calls_from w (snd (writeTypes e (snd (scanHandlers e w))))
                  @ [Log Start ''Building server...'', Rollup,
                     Log Failure (''Rollup error: '' @ message err)]"
    by (simp add: b s1 s2 calls_from_def t1 t2)
  have calls: "set (calls_from w (snd (build_internal e w)))
      \<subseteq> {ScanHandlers, Log Start ''Building server...'', Rollup,
           Log Failure (''Rollup error: '' @ message err)} \<union> set cs"
    by (auto simp: b calls_from_def t1 t2 split: sum.splits)
  have files: "files (snd (build_internal e w)) (manifest_path e (nitro w))
           = files w (manifest_path e (nitro w))"
    using f2 [OF mp] by (simp add: b f1 split: sum.splits)
  from calls cs_bw have "BundleWrite \<notin> set (calls_from w (snd (build_internal e w)))"
    by auto
  moreover from calls cs_hook
  have "CallHook ''nitro:compiled'' \<notin> set (calls_from w (snd (build_internal e w)))"
    by auto
  moreover from calls cs_mf
  have "\<forall>c. WriteFile (manifest_path e (nitro w)) c \<notin> set (calls_from w (snd (build_internal e w)))"
    by auto
  ultimately show ?thesis using first files by blast
qed


text \<open>The theorem at a bundler that rejects with the message \<open>boom\<close>.\<close>

theorem build_internal_rollup_rejects_witness:
  "rollup_error ((quiet_env ''/proj'')\<lparr>rollup_error := Some (Error ''boom'')\<rparr>) = Some (Error ''boom'')
   \<and> (case build_internal ((quiet_env ''/proj'')\<lparr>rollup_error := Some (Error ''boom'')\<rparr>)
              (example_world (example_nitro ''/proj/dist'' ''/proj/dist/public'' ''/proj/dist/server'' [])) of
         (r, w') \<Rightarrow>
           r = Inl (Error ''boom'')
           \<and> last (trace w') = Log Failure ''Rollup error: boom''
           \<and> BundleWrite \<notin> set (trace w')
           \<and> CallHook ''nitro:compiled'' \<notin> set (trace w')
           \<and> files w' ''/proj/dist/nitro.json'' = None)"
proof -
  let ?e = "(quiet_env ''/proj'')\<lparr>rollup_error := Some (Error ''boom'')\<rparr>"
  let ?w = "example_world (example_nitro ''/proj/dist'' ''/proj/dist/public'' ''/proj/dist/server'' [])"
  have r: "rollup_error ?e = Some (Error ''boom'')" by simp
  note inst = build_internal_rollup_rejects [OF r, of ?w]
  have s: "fst (scanHandlers ?e ?w) = Inr ()"
    by (simp add: scanHandlers_def quiet_env_def)
  have d: "\<exists>text. declaration_text (cwd ?e) (nitro (snd (scanHandlers ?e ?w))) = Inr text"
    by (simp add: scanHandlers_def quiet_env_def emit_def example_world_def example_nitro_def
        declaration_text_def route_types_of_def)
  have t: "fst (writeTypes ?e (snd (scanHandlers ?e ?w))) = Inr ()"
    using d by (auto simp: writeTypes_result quiet_env_def)
  have m: "manifest_path ?e (nitro ?w) = ''/proj/dist/nitro.json''"
    by (simp add: manifest_path_def example_world_def example_nitro_def quiet_env_def resolve_def
        isAbsolute_def)
  have e: "trace ?w = []" "files ?w = Map.empty"
    by (simp_all add: example_world_def)
  obtain res w' where b: "build_internal ?e ?w = (res, w')"
    by (cases "build_internal ?e ?w")
  from inst s t e have "trace w' = trace (snd (writeTypes ?e (snd (scanHandlers ?e ?w))))
      @ [Log Start ''Building server...'', Rollup, Log Failure ''Rollup error: boom'']"
    by (simp add: calls_from_def b)
  then have l: "last (trace w') = Log Failure ''Rollup error: boom''"
    by simp
  from inst s t have f: "res = Inl (Error ''boom'')"
    by (simp add: b)
  from inst m e have "BundleWrite \<notin> set (trace w')
           \<and> CallHook ''nitro:compiled'' \<notin> set (trace w')
           \<and> files w' ''/proj/dist/nitro.json'' = None"
    by (simp add: calls_from_def b)
  with l f have "res = Inl (Error ''boom'')
           \<and> last (trace w') = Log Failure ''Rollup error: boom''
           \<and> BundleWrite \<notin> set (trace w')
           \<and> CallHook ''nitro:compiled'' \<notin> set (trace w')
           \<and> files w' ''/proj/dist/nitro.json'' = None"
    by blast
  with r show ?thesis
    by (simp add: b)
qed

section \<open>The command-hint rewrite\<close>

lemma expand_replacement_plain:
  "CHR ''$'' \<notin> set t \<Longrightarrow> expand_replacement m p f g t = t"
  by (induction m p f g t rule: expand_replacement.induct) auto

lemma expand_replacement_append_plain:
  "CHR ''$'' \<notin> set t \<Longrightarrow> u \<noteq> [] \<Longrightarrow>
   expand_replacement m p f g (t @ u) = t @ expand_replacement m p f g u"
proof (induction t)
  case Nil
  then show ?case by simp
next
  case (Cons c t)
  then obtain d rest where "t @ u = d # rest" by (cases "t @ u") auto
  with Cons show ?case by auto
qed

lemma expand_template:
  assumes "CHR ''$'' \<notin> set rOutput"
  shows "expand_replacement m p f g ('' '' @ rOutput @ ''/$1'') = '' '' @ rOutput @ ''/'' @ g"
proof -
  have "expand_replacement m p f g (('' '' @ rOutput @ ''/'') @ ''$1'')
          = ('' '' @ rOutput @ ''/'') @ expand_replacement m p f g ''$1''"
    using assms by (intro expand_replacement_append_plain) auto
  then show ?thesis by (simp add: is_digit_def)
qed

lemma is_space_not_dot_slash: "is_space c \<Longrightarrow> c \<noteq> CHR ''.'' \<and> c \<noteq> CHR ''/''"
  by (auto simp: is_space_def)

lemma takeWhile_stop: "\<not> P y \<Longrightarrow> takeWhile P (xs @ y # ys) = takeWhile P xs"
  by (induction xs) auto

lemma dropWhile_stop: "\<not> P y \<Longrightarrow> dropWhile P (xs @ y # ys) = dropWhile P xs @ y # ys"
  by (induction xs) auto

lemma match_here_append:
  assumes "is_space c0" "u \<noteq> []"
  shows "match_here (u @ c0 # v) = map_option (\<lambda>(g, r). (g, r @ c0 # v)) (match_here u)"
proof -
  note ns = is_space_not_dot_slash [OF assms(1)]
  consider x where "u = [x]" | x d where "u = [x, d]" | x d e t where "u = x # d # e # t"
    using assms(2) by (cases u rule: list.exhaust; cases "tl u"; cases "tl (tl u)") auto
  then show ?thesis
  proof cases
    case 1
    then show ?thesis using ns by (cases v) (auto simp: match_here_def)
  next
    case 2
    then show ?thesis using ns by (auto simp: match_here_def)
  next
    case 3
    then show ?thesis
      using assms(1) by (simp add: match_here_def takeWhile_stop dropWhile_stop)
  qed
qed

lemma match_here_Some:
  "match_here s = Some (g, r) \<Longrightarrow>
   \<exists>c. s = c # ''./'' @ g @ r \<and> is_space c \<and> g \<noteq> [] \<and> list_all (\<lambda>x. \<not> is_space x) g"
  by (auto simp: match_here_def list_all_iff split: list.splits if_splits dest: set_takeWhileD)

lemma replace_matches_append:
  assumes "\<And>m p f g. expand_replacement m p f g tm = pre @ g" and "is_space c0"
  shows "replace_matches tm p (u @ c0 # v) =
         replace_matches tm p u @ replace_matches tm (p @ u) (c0 # v)"
  using assms
proof (induction tm p u rule: replace_matches.induct)
  case (1 replacement preceding)
  then show ?case by simp
next
  case (2 replacement preceding c cs)
  note ex = "2.prems"(1) and sp = "2.prems"(2)
  show ?case
  proof (cases "match_here (c # cs)")
    case None
    then have m: "match_here ((c # cs) @ c0 # v) = None"
      using sp by (simp add: match_here_append del: append_Cons)
    have l: "replace_matches replacement preceding ((c # cs) @ c0 # v)
               = c # replace_matches replacement (preceding @ [c]) (cs @ c0 # v)"
      using m by simp
    have r: "replace_matches replacement preceding (c # cs)
               = c # replace_matches replacement (preceding @ [c]) cs"
      using None by simp
    have ih: "replace_matches replacement (preceding @ [c]) (cs @ c0 # v) =
              replace_matches replacement (preceding @ [c]) cs
              @ replace_matches replacement ((preceding @ [c]) @ cs) (c0 # v)"
      using "2.IH"(1) [OF None ex sp] .
    show ?thesis
      unfolding l r ih by simp
  next
    case (Some gr)
    obtain g r where gr: "gr = (g, r)" by (cases gr)
    from Some gr match_here_Some [of "c # cs" g r]
    have cs: "c # cs = c # ''./'' @ g @ r" by auto
    have m: "match_here ((c # cs) @ c0 # v) = Some (g, r @ c0 # v)"
      using sp Some gr by (simp add: match_here_append del: append_Cons)
    have l: "replace_matches replacement preceding ((c # cs) @ c0 # v)
               = (pre @ g) @ replace_matches replacement (preceding @ c # ''./'' @ g) (r @ c0 # v)"
      using m by (simp add: ex)
    have r: "replace_matches replacement preceding (c # cs)
               = (pre @ g) @ replace_matches replacement (preceding @ c # ''./'' @ g) r"
      using Some gr by (simp add: ex)
    have ih: "replace_matches replacement (preceding @ c # ''./'' @ g) (r @ c0 # v) =
              replace_matches replacement (preceding @ c # ''./'' @ g) r
              @ replace_matches replacement ((preceding @ c # ''./'' @ g) @ r) (c0 # v)"
      using "2.IH"(2) [OF Some gr [symmetric] ex sp] .
    have p: "(preceding @ c # ''./'' @ g) @ r = preceding @ c # cs"
      using cs by simp
    show ?thesis
      unfolding l r ih p by simp
  qed
qed

lemma replace_matches_no_space:
  "list_all (\<lambda>x. \<not> is_space x) s \<Longrightarrow> replace_matches tm p s = s"
proof (induction s arbitrary: p)
  case Nil
  then show ?case by simp
next
  case (Cons c s)
  then have "match_here (c # s) = None"
    by (auto simp: match_here_def split: list.splits)
  with Cons show ?case by simp
qed


lemma replace_matches_preceding:
  assumes "\<And>m p f g. expand_replacement m p f g tm = pre @ g"
  shows "replace_matches tm p s = replace_matches tm p' s"
  using assms
proof (induction tm p s arbitrary: p' rule: replace_matches.induct)
  case (1 replacement preceding)
  then show ?case by simp
next
  case (2 replacement preceding c cs)
  note ex = "2.prems"
  show ?case
  proof (cases "match_here (c # cs)")
    case None
    with "2.IH"(1) [OF None ex, of "p' @ [c]"] show ?thesis by simp
  next
    case (Some gr)
    obtain g r where gr: "gr = (g, r)" by (cases gr)
    from "2.IH"(2) [OF Some gr [symmetric] ex, of "p' @ c # ''./'' @ g"] Some gr
    show ?thesis by (simp add: ex)
  qed
qed

lemma rewrite_example:
  "rewriteRelativePaths (relative ''/proj'' ''/proj'' ''/proj/dist'') ''node ./server/index.mjs''
     = ''node dist/server/index.mjs''"
  by (simp add: rewriteRelativePaths_def relative_def resolve_def isAbsolute_def segments_def
      match_here_def is_space_def is_digit_def)

text \<open>
  Claim C8, amended. Let the relative output root contain no dollar sign (it is spliced
  into a replacement pattern, where a dollar sign is read as a reference). The rewrite
  cuts the template before every whitespace character and treats each piece on its
  own. A piece that is one whitespace character, \<open>./\<close> and a non-empty run of
  non-whitespace characters becomes a space character, the relative output root, a
  slash and the run. Every other piece, with no whitespace after its first character,
  stays as it is. With the output root \<open>/proj/dist\<close> and the working directory \<open>/proj\<close>,
  \<open>node ./server/index.mjs\<close> becomes \<open>node dist/server/index.mjs\<close>.
\<close>

theorem rewriteRelativePaths_pieces:
  assumes "CHR ''$'' \<notin> set rOutput"
  shows "(is_space c \<longrightarrow>
            rewriteRelativePaths rOutput (u @ c # v)
              = rewriteRelativePaths rOutput u @ rewriteRelativePaths rOutput (c # v))
       \<and> (is_space c \<and> run \<noteq> [] \<and> list_all (\<lambda>x. \<not> is_space x) run \<longrightarrow>
            rewriteRelativePaths rOutput (c # ''./'' @ run) = '' '' @ rOutput @ ''/'' @ run)
       \<and> (list_all (\<lambda>x. \<not> is_space x) w \<and> \<not> (is_space c \<and> (\<exists>run. run \<noteq> [] \<and> w = ''./'' @ run)) \<longrightarrow>
            rewriteRelativePaths rOutput (c # w) = c # w)
       \<and> rewriteRelativePaths rOutput [] = []
       \<and> rewriteRelativePaths (relative ''/proj'' ''/proj'' ''/proj/dist'') ''node ./server/index.mjs''
            = ''node dist/server/index.mjs''"
proof -
  let ?tm = "'' '' @ rOutput @ ''/$1''"
  have ex: "expand_replacement m p f g ?tm = ('' '' @ rOutput @ ''/'') @ g" for m p f g
    using expand_template [OF assms] by simp
  have a: "rewriteRelativePaths rOutput (u @ c # v)
              = rewriteRelativePaths rOutput u @ rewriteRelativePaths rOutput (c # v)"
    if "is_space c"
    unfolding rewriteRelativePaths_def
    using replace_matches_append [of ?tm "'' '' @ rOutput @ ''/''" c "[]" u v, OF ex that]
      replace_matches_preceding [of ?tm "'' '' @ rOutput @ ''/''" "[] @ u" "c # v" "[]", OF ex]
    by simp
  have b: "rewriteRelativePaths rOutput (c # ''./'' @ run) = '' '' @ rOutput @ ''/'' @ run"
    if "is_space c" "run \<noteq> []" "list_all (\<lambda>x. \<not> is_space x) run"
  proof -
    have tw: "takeWhile (\<lambda>x. \<not> is_space x) run = run" "dropWhile (\<lambda>x. \<not> is_space x) run = []"
      using that(3) by (simp_all add: list_all_iff)
    have "match_here (c # ''./'' @ run) = Some (run, [])"
      using that by (simp add: match_here_def tw)
    then have "replace_matches ?tm [] (c # ''./'' @ run) = (('' '' @ rOutput @ ''/'') @ run) @ []"
      by (simp only: replace_matches.simps ex option.case prod.case)
    then show ?thesis
      by (simp add: rewriteRelativePaths_def)
  qed
  have c: "rewriteRelativePaths rOutput (c # w) = c # w"
    if "list_all (\<lambda>x. \<not> is_space x) w" "\<not> (is_space c \<and> (\<exists>run. run \<noteq> [] \<and> w = ''./'' @ run))"
  proof -
    have "match_here (c # w) = None"
    proof (cases "match_here (c # w)")
      case None
      then show ?thesis .
    next
      case (Some gr)
      obtain g r where "gr = (g, r)" by (cases gr)
      with Some match_here_Some [of "c # w" g r]
      have "w = ''./'' @ (g @ r)" "is_space c" "g @ r \<noteq> []" by auto
      with that(2) show ?thesis by blast
    qed
    then show ?thesis
      by (simp add: rewriteRelativePaths_def replace_matches_no_space [OF that(1)])
  qed
  have d: "rewriteRelativePaths rOutput [] = []"
    by (simp add: rewriteRelativePaths_def)
  from a b c d rewrite_example show ?thesis by blast
qed

text \<open>The theorem at the output root \<open>dist\<close> and the template \<open>node ./server/index.mjs\<close>.\<close>

theorem rewriteRelativePaths_pieces_witness:
  "CHR ''$'' \<notin> set ''dist'' \<and> is_space CHR '' ''
   \<and> rewriteRelativePaths ''dist'' (''node'' @ CHR '' '' # ''./server/index.mjs'')
       = rewriteRelativePaths ''dist'' ''node'' @ rewriteRelativePaths ''dist'' '' ./server/index.mjs''
   \<and> rewriteRelativePaths ''dist'' (CHR '' '' # ''./'' @ ''server/index.mjs'') = '' dist/server/index.mjs''
   \<and> rewriteRelativePaths ''dist'' (CHR ''n'' # ''ode'') = ''node''"
proof -
  have d: "CHR ''$'' \<notin> set ''dist''" by simp
  have s: "is_space CHR '' ''" by (simp add: is_space_def)
  have r: "''server/index.mjs'' \<noteq> [] \<and> list_all (\<lambda>x. \<not> is_space x) ''server/index.mjs''"
    by (simp add: is_space_def)
  have w: "list_all (\<lambda>x. \<not> is_space x) ''ode''
           \<and> \<not> (is_space CHR ''n'' \<and> (\<exists>run. run \<noteq> [] \<and> ''ode'' = ''./'' @ run))"
    by (simp add: is_space_def)
  from rewriteRelativePaths_pieces [OF d, of "CHR '' ''" "''node''" "''./server/index.mjs''"
      "''server/index.mjs''" "''ode''"] s r
  have 1: "rewriteRelativePaths ''dist'' (''node'' @ CHR '' '' # ''./server/index.mjs'')
       = rewriteRelativePaths ''dist'' ''node'' @ rewriteRelativePaths ''dist'' '' ./server/index.mjs''"
    and 2: "rewriteRelativePaths ''dist'' (CHR '' '' # ''./'' @ ''server/index.mjs'') = '' dist/server/index.mjs''"
    by simp_all
  from rewriteRelativePaths_pieces [OF d, of "CHR ''n''" "[]" "[]" "[]" "''ode''"] w
  have 3: "rewriteRelativePaths ''dist'' (CHR ''n'' # ''ode'') = ''node''"
    by simp
  from d s 1 2 3 show ?thesis by blast
qed

text \<open>
  Claim C8 as stated has the whitespace character kept. A tab before \<open>./\<close> is replaced by
  a space; and an output root \<open>$&\<close> is not spliced in as it is, the runtime puts the
  matched text in its place.
\<close>

theorem rewriteRelativePaths_tab_and_dollar:
  "rewriteRelativePaths ''dist'' (''node'' @ [CHR 0x09] @ ''./server/index.mjs'')
     = ''node dist/server/index.mjs''
   \<and> rewriteRelativePaths ''dist'' (''node'' @ [CHR 0x09] @ ''./server/index.mjs'')
     \<noteq> ''node'' @ [CHR 0x09] @ ''dist/server/index.mjs''
   \<and> rewriteRelativePaths ''$&'' ''node ./server/index.mjs''
     = ''node  ./server/index.mjs/server/index.mjs''
   \<and> rewriteRelativePaths ''$&'' ''node ./server/index.mjs'' \<noteq> ''node $&/server/index.mjs''"
  by (simp add: rewriteRelativePaths_def match_here_def is_space_def is_digit_def)

section \<open>The template step of build\<close>

lemma readFile_result:
  "readFile p w = (case files w p of None \<Rightarrow> Inl (Error ''ENOENT: no such file or directory'') | Some c \<Rightarrow> Inr c,
                   emit (ReadFile p) w)"
  by (simp add: readFile_def split: option.splits)

text \<open>
  Claim C9. When the overlay maps the template source path to the empty string, the
  contents are those of the file on disk, read by a call of \<open>readFile\<close>, or empty when
  there is no such file; the overlay entry is not used. When there is no such file, the
  template step does nothing after the failed read: the hook \<open>nitro:document\<close> is not
  called and no module is written.
\<close>

theorem empty_overlay_entry_falls_back:
  assumes "vfs (nitro w) (htmlSrc e (nitro w)) = Some []"
  shows "template_contents e w =
           (Inr (case files w (htmlSrc e (nitro w)) of None \<Rightarrow> [] | Some c \<Rightarrow> c),
            emit (ReadFile (htmlSrc e (nitro w))) w)
       \<and> (files w (htmlSrc e (nitro w)) = None \<longrightarrow>
            compile_template e w = (Inr (), emit (ReadFile (htmlSrc e (nitro w))) w))"
proof -
  have t: "template_contents e w =
           (Inr (case files w (htmlSrc e (nitro w)) of None \<Rightarrow> [] | Some c \<Rightarrow> c),
            emit (ReadFile (htmlSrc e (nitro w))) w)"
    using assms by (simp add: template_contents_def readFile_result emit_def split: option.splits)
  then have "files w (htmlSrc e (nitro w)) = None \<longrightarrow>
            compile_template e w = (Inr (), emit (ReadFile (htmlSrc e (nitro w))) w)"
    by (simp add: compile_template_def await_def resolved_def)
  with t show ?thesis by simp
qed

text \<open>The theorem at an overlay with an empty entry and a disk without the template.\<close>

theorem empty_overlay_entry_falls_back_witness:
  "vfs (nitro ((example_world (example_nitro ''/proj/dist'' ''/proj/dist/public'' ''/proj/dist/server'' []))
           \<lparr>nitro := (example_nitro ''/proj/dist'' ''/proj/dist/public'' ''/proj/dist/server'' [])
              \<lparr>vfs := [''/proj/.nitro/views/app.template.html'' \<mapsto> []]\<rparr>\<rparr>))
       ''/proj/.nitro/views/app.template.html'' = Some []
   \<and> compile_template (quiet_env ''/proj'')
        ((example_world (example_nitro ''/proj/dist'' ''/proj/dist/public'' ''/proj/dist/server'' []))
           \<lparr>nitro := (example_nitro ''/proj/dist'' ''/proj/dist/public'' ''/proj/dist/server'' [])
              \<lparr>vfs := [''/proj/.nitro/views/app.template.html'' \<mapsto> []]\<rparr>\<rparr>)
     = (Inr (),
        (example_world (example_nitro ''/proj/dist'' ''/proj/dist/public'' ''/proj/dist/server'' []))
           \<lparr>nitro := (example_nitro ''/proj/dist'' ''/proj/dist/public'' ''/proj/dist/server'' [])
              \<lparr>vfs := [''/proj/.nitro/views/app.template.html'' \<mapsto> []]\<rparr>,
            trace := [ReadFile ''/proj/.nitro/views/app.template.html'']\<rparr>)"
proof -
  let ?n = "(example_nitro ''/proj/dist'' ''/proj/dist/public'' ''/proj/dist/server'' [])
              \<lparr>vfs := [''/proj/.nitro/views/app.template.html'' \<mapsto> []]\<rparr>"
  let ?w = "(example_world (example_nitro ''/proj/dist'' ''/proj/dist/public'' ''/proj/dist/server'' []))
           \<lparr>nitro := ?n\<rparr>"
  have n: "nitro ?w = ?n"
    by simp
  have h: "htmlSrc (quiet_env ''/proj'') ?n = ''/proj/.nitro/views/app.template.html''"
    by (simp add: htmlSrc_def quiet_env_def example_nitro_def resolve_def isAbsolute_def)
  have v: "vfs (nitro ?w) (htmlSrc (quiet_env ''/proj'') (nitro ?w)) = Some []"
    unfolding n h by simp
  have f: "files ?w (htmlSrc (quiet_env ''/proj'') (nitro ?w)) = None"
    by (simp add: example_world_def)
  from empty_overlay_entry_falls_back [OF v] f
  have "compile_template (quiet_env ''/proj'') ?w
          = (Inr (), emit (ReadFile (htmlSrc (quiet_env ''/proj'') (nitro ?w))) ?w)"
    by blast
  then show ?thesis
    unfolding n h by (simp add: emit_def example_world_def)
qed

section \<open>The watch coordinator: events, patterns and shutdown\<close>

lemma on_all_trace:
  "trace (on_all event w) = trace w @ (if event \<in> set watchReloadEvents then [ReloadCall] else [])"
  by (simp add: on_all_def emit_def)

lemma deliver_trace:
  "trace (deliver events w) =
     trace w @ map (\<lambda>_. ReloadCall) (filter (\<lambda>ev. ev \<in> set watchReloadEvents) events)"
  unfolding deliver_def
  by (induction events arbitrary: w) (simp_all add: on_all_trace)

text \<open>
  Claim C6. The listener of the filesystem watcher calls the reload trigger exactly for
  the event names \<open>add\<close>, \<open>addDir\<close>, \<open>unlink\<close> and \<open>unlinkDir\<close>, once per event. The event
  \<open>change\<close> leaves the world as it is. Over any list of delivered events the trigger is
  called once for each of the four structural events in it and for no other.
\<close>

theorem on_all_structural_only:
  "(ReloadCall \<in> set (calls_from w (on_all event w)))
      = (event \<in> {''add'', ''addDir'', ''unlink'', ''unlinkDir''})
   \<and> calls_from w (on_all event w)
      = (if event \<in> {''add'', ''addDir'', ''unlink'', ''unlinkDir''} then [ReloadCall] else [])
   \<and> on_all ''change'' w = w
   \<and> calls_from w (deliver events w)
      = replicate (length (filter (\<lambda>ev. ev \<in> {''add'', ''addDir'', ''unlink'', ''unlinkDir''}) events))
          ReloadCall"
proof -
  have s: "set watchReloadEvents = {''add'', ''addDir'', ''unlink'', ''unlinkDir''}"
    by (simp add: watchReloadEvents_def)
  have c: "calls_from w (on_all event w)
      = (if event \<in> {''add'', ''addDir'', ''unlink'', ''unlinkDir''} then [ReloadCall] else [])"
    by (simp add: calls_from_def on_all_trace s)
  have ch: "on_all ''change'' w = w"
    by (simp add: on_all_def watchReloadEvents_def)
  have d: "calls_from w (deliver events w)
      = replicate (length (filter (\<lambda>ev. ev \<in> {''add'', ''addDir'', ''unlink'', ''unlinkDir''}) events))
          ReloadCall"
    by (simp add: calls_from_def deliver_trace s map_replicate_const)
  from c ch d show ?thesis by simp
qed

lemma split_on_join_with:
  "ds \<noteq> [] \<Longrightarrow> list_all plain_segment ds \<Longrightarrow> split_on CHR ''/'' (join_with ''/'' ds) = ds"
proof (induction "''/''" ds rule: join_with.induct)
  case 1
  then show ?case by simp
next
  case (2 s)
  then show ?case by (simp add: split_on_absent plain_segment_def)
next
  case (3 s t ss)
  then have "split_on CHR ''/'' (s @ CHR ''/'' # join_with ''/'' (t # ss))
      = split_on CHR ''/'' s @ split_on CHR ''/'' (join_with ''/'' (t # ss))"
    by (simp only: split_on_append)
  with 3 show ?case by (simp add: split_on_absent plain_segment_def)
qed

lemma normalizeString_plain:
  "list_all plain_segment ds \<Longrightarrow> normalizeString a acc ds = acc @ ds"
  by (induction ds arbitrary: acc) (auto simp: plain_segment_def)

lemma join_with_append:
  "xs \<noteq> [] \<Longrightarrow> ys \<noteq> [] \<Longrightarrow> join_with sep (xs @ ys) = join_with sep xs @ sep @ join_with sep ys"
  by (induction sep xs rule: join_with.induct) (auto simp: neq_Nil_conv)

lemma join_with_not_Nil:
  "ds \<noteq> [] \<Longrightarrow> list_all plain_segment ds \<Longrightarrow> join_with sep ds \<noteq> []"
  by (induction sep ds rule: join_with.induct) (auto simp: plain_segment_def)

lemma last_join_with_plain:
  "ds \<noteq> [] \<Longrightarrow> list_all plain_segment ds \<Longrightarrow> last (join_with ''/'' ds) \<noteq> CHR ''/''"
proof (induction ds rule: rev_induct)
  case Nil
  then show ?case by simp
next
  case (snoc s ds)
  then have "s \<noteq> []" "CHR ''/'' \<notin> set s" by (simp_all add: plain_segment_def)
  then have "last s \<noteq> CHR ''/''" by (metis last_in_set)
  with \<open>s \<noteq> []\<close> show ?case by (simp add: join_with_snoc)
qed

lemma normalize_absolute_plain:
  assumes "ds \<noteq> []" "list_all plain_segment ds"
  shows "normalize_path (''/'' @ join_with ''/'' ds) = ''/'' @ join_with ''/'' ds"
proof -
  have sp: "split_on CHR ''/'' (CHR ''/'' # join_with ''/'' ds) = [] # ds"
    using assms by (simp add: split_on_join_with)
  have ns: "normalizeString False [] ([] # ds) = ds"
    using assms(2) by (simp add: normalizeString_plain)
  show ?thesis
    using assms join_with_not_Nil [OF assms, of "''/''"] last_join_with_plain [OF assms]
    by (simp add: normalize_path_def isAbsolute_def Let_def sp ns del: split_on.simps normalizeString.simps)
qed

lemma join_under_directory:
  assumes "ds \<noteq> []" "list_all plain_segment ds" "gs \<noteq> []" "list_all plain_segment gs"
  shows "join [''/'' @ join_with ''/'' ds, join_with ''/'' gs]
           = (''/'' @ join_with ''/'' ds) @ ''/'' @ join_with ''/'' gs"
proof -
  have g: "join_with ''/'' gs \<noteq> []"
    using assms(3,4) by (rule join_with_not_Nil)
  have "(''/'' @ join_with ''/'' ds) @ ''/'' @ join_with ''/'' gs = ''/'' @ join_with ''/'' (ds @ gs)"
    using assms(1,3) by (simp add: join_with_append)
  moreover have "normalize_path (''/'' @ join_with ''/'' (ds @ gs)) = ''/'' @ join_with ''/'' (ds @ gs)"
    using assms by (intro normalize_absolute_plain) simp_all
  ultimately show ?thesis
    using g by (simp add: join_def)
qed

lemma join_api:
  assumes "ds \<noteq> []" "list_all plain_segment ds"
  shows "join [''/'' @ join_with ''/'' ds, ''api''] = (''/'' @ join_with ''/'' ds) @ ''/api''"
  using join_under_directory [OF assms, of "[''api'']"] by (simp add: plain_segment_def)

lemma join_middleware:
  assumes "ds \<noteq> []" "list_all plain_segment ds" "gs \<noteq> []" "list_all plain_segment gs"
  shows "join [''/'' @ join_with ''/'' ds, ''middleware'', join_with ''/'' gs]
           = (''/'' @ join_with ''/'' ds) @ ''/middleware/'' @ join_with ''/'' gs"
proof -
  have g: "join_with ''/'' gs \<noteq> []"
    using assms(3,4) by (rule join_with_not_Nil)
  have "join [''/'' @ join_with ''/'' ds, ''middleware'', join_with ''/'' gs]
          = join [''/'' @ join_with ''/'' ds, join_with ''/'' (''middleware'' # gs)]"
    using g assms(3) by (cases gs) (simp_all add: join_def)
  also have "\<dots> = (''/'' @ join_with ''/'' ds) @ ''/'' @ join_with ''/'' (''middleware'' # gs)"
    using assms by (intro join_under_directory) (simp_all add: plain_segment_def)
  also have "\<dots> = (''/'' @ join_with ''/'' ds) @ ''/middleware/'' @ join_with ''/'' gs"
    using assms(3) by (cases gs) simp_all
  finally show ?thesis .
qed

text \<open>
  Claim C7, amended. Let every scan directory be an absolute path of names, and the
  constant \<open>GLOB_SCAN_PATTERN\<close> a relative path of names. Then the patterns the filesystem
  watcher is subscribed over are, for every scan directory \<open>d\<close> in order, the two paths
  \<open>d/api\<close> and \<open>d/middleware/GLOB_SCAN_PATTERN\<close>, and nothing else: the \<open>api\<close> directory itself,
  without a glob suffix. \<open>_watch\<close> subscribes the watcher over these patterns, registers the
  \<open>close\<close> handler and calls \<open>reload\<close>.
\<close>

theorem watchPatterns_per_directory:
  assumes "scanDirs (options n) = map absolute_path dss"
    and "list_all plain_segments dss"
    and "GLOB_SCAN_PATTERN e = join_with ''/'' gs"
    and "plain_segments gs"
  shows "watchPatterns e n =
           concat (map (\<lambda>d. [d @ ''/api'', d @ ''/middleware/'' @ GLOB_SCAN_PATTERN e])
                     (scanDirs (options n)))
       \<and> calls_from w (watch_setup e w)
           = [FsWatch (watchPatterns e (nitro w)), RegisterHook ''close'', ReloadCall]"
proof -
  have "map (\<lambda>d. [join [d, ''api''], join [d, ''middleware'', GLOB_SCAN_PATTERN e]]) (map absolute_path dss)
      = map (\<lambda>d. [d @ ''/api'', d @ ''/middleware/'' @ GLOB_SCAN_PATTERN e]) (map absolute_path dss)"
    using assms(2,4)
    by (auto simp: list_all_iff plain_segments_def absolute_path_def assms(3) join_api join_middleware
        simp del: append_Cons)
  then have "watchPatterns e n =
           concat (map (\<lambda>d. [d @ ''/api'', d @ ''/middleware/'' @ GLOB_SCAN_PATTERN e])
                     (scanDirs (options n)))"
    by (simp only: watchPatterns_def assms(1))
  moreover have "calls_from w (watch_setup e w)
           = [FsWatch (watchPatterns e (nitro w)), RegisterHook ''close'', ReloadCall]"
    by (simp add: watch_setup_def emit_def calls_from_def)
  ultimately show ?thesis by simp
qed

text \<open>
  Claim C7 as stated has the pattern \<open>/src/api/**\<close> for the scan directory \<open>/src\<close>. Also with
  \<open>**\<close> for the constant \<open>GLOB_SCAN_PATTERN\<close>, the pattern for the \<open>api\<close> subtree is \<open>/src/api\<close>.
\<close>

theorem watchPatterns_api_directory:
  "watchPatterns (quiet_env ''/proj'')
     ((example_nitro ''/proj/dist'' ''/proj/dist/public'' ''/proj/dist/server'' [])
        \<lparr>options := (options (example_nitro ''/proj/dist'' ''/proj/dist/public'' ''/proj/dist/server'' []))
           \<lparr>scanDirs := [''/src'']\<rparr>\<rparr>)
     = [''/src/api'', ''/src/middleware/**'']
   \<and> ''/src/api/**'' \<notin> set (watchPatterns (quiet_env ''/proj'')
     ((example_nitro ''/proj/dist'' ''/proj/dist/public'' ''/proj/dist/server'' [])
        \<lparr>options := (options (example_nitro ''/proj/dist'' ''/proj/dist/public'' ''/proj/dist/server'' []))
           \<lparr>scanDirs := [''/src'']\<rparr>\<rparr>))"
  by (simp add: watchPatterns_def quiet_env_def example_nitro_def join_def normalize_path_def isAbsolute_def)


text \<open>The theorem at two scan directories and a pattern of two segments.\<close>

theorem watchPatterns_per_directory_witness:
  "watchPatterns ((quiet_env ''/proj'')\<lparr>GLOB_SCAN_PATTERN := ''**/*.{ts,mjs,js,cjs}''\<rparr>)
     ((example_nitro ''/proj/dist'' ''/proj/dist/public'' ''/proj/dist/server'' [])
        \<lparr>options := (options (example_nitro ''/proj/dist'' ''/proj/dist/public'' ''/proj/dist/server'' []))
           \<lparr>scanDirs := [''/proj'', ''/proj/layer'']\<rparr>\<rparr>)
     = [''/proj/api'', ''/proj/middleware/**/*.{ts,mjs,js,cjs}'',
        ''/proj/layer/api'', ''/proj/layer/middleware/**/*.{ts,mjs,js,cjs}'']"
proof -
  let ?e = "(quiet_env ''/proj'')\<lparr>GLOB_SCAN_PATTERN := ''**/*.{ts,mjs,js,cjs}''\<rparr>"
  let ?n = "(example_nitro ''/proj/dist'' ''/proj/dist/public'' ''/proj/dist/server'' [])
        \<lparr>options := (options (example_nitro ''/proj/dist'' ''/proj/dist/public'' ''/proj/dist/server'' []))
           \<lparr>scanDirs := [''/proj'', ''/proj/layer'']\<rparr>\<rparr>"
  have 1: "scanDirs (options ?n) = map absolute_path [[''proj''], [''proj'', ''layer'']]"
    by (simp add: absolute_path_def)
  have 2: "list_all plain_segments [[''proj''], [''proj'', ''layer'']]"
    by (simp add: plain_segments_def plain_segment_def)
  have 3: "GLOB_SCAN_PATTERN ?e = join_with ''/'' [''**'', ''*.{ts,mjs,js,cjs}'']"
    by simp
  have 4: "plain_segments [''**'', ''*.{ts,mjs,js,cjs}'']"
    by (simp add: plain_segments_def plain_segment_def)
  from watchPatterns_per_directory [OF 1 2 3 4]
  have "watchPatterns ?e ?n =
           concat (map (\<lambda>d. [d @ ''/api'', d @ ''/middleware/'' @ GLOB_SCAN_PATTERN ?e])
                     (scanDirs (options ?n)))"
    by blast
  then show ?thesis by simp
qed

text \<open>
  Claim C10. While the variable \<open>rollupWatcher\<close> is undefined, the \<open>close\<close> handler throws a
  \<open>TypeError\<close> and changes nothing: the filesystem watcher is not closed. The variable is
  undefined when \<open>_watch\<close> has registered the handler and called \<open>reload\<close>, and still so when the
  first run of the reload function has called the scanner. Once a watcher is assigned,
  the handler closes it and the filesystem watcher.
\<close>

theorem close_before_first_watcher:
  "(rollupWatcher w = None \<longrightarrow>
      close_handler w = (Inl (TypeError ''Cannot read properties of undefined (reading 'close')''), w))
   \<and> (rollupWatcher w = Some h \<longrightarrow>
        fst (close_handler w) = Inr ()
        \<and> calls_from w (snd (close_handler w)) = [RollupWatcherClose h, FsWatcherClose])
   \<and> rollupWatcher (watch_setup e w) = None
   \<and> rollupWatcher (snd (await reload_close_previous (\<lambda>_. scanHandlers e) (watch_setup e w))) = None
   \<and> (\<exists>err. fst (close_handler (watch_setup e w)) = Inl err)
   \<and> FsWatcherClose \<notin> set (calls_from w (snd (close_handler (watch_setup e w))))
   \<and> (\<exists>err. fst (close_handler
          (snd (await reload_close_previous (\<lambda>_. scanHandlers e) (watch_setup e w)))) = Inl err)
   \<and> FsWatcherClose \<notin> set (calls_from w (snd (close_handler
          (snd (await reload_close_previous (\<lambda>_. scanHandlers e) (watch_setup e w))))))"
proof -
  let ?w1 = "watch_setup e w"
  let ?w2 = "snd (await reload_close_previous (\<lambda>_. scanHandlers e) ?w1)"
  have c: "close_handler v = (Inl (TypeError ''Cannot read properties of undefined (reading 'close')''), v)"
    if "rollupWatcher v = None" for v
    using that by (simp add: close_handler_def)
  have r1: "rollupWatcher ?w1 = None"
    by (simp add: watch_setup_def emit_def)
  have t1: "calls_from w ?w1 = [FsWatch (watchPatterns e (nitro w)), RegisterHook ''close'', ReloadCall]"
    by (simp add: watch_setup_def emit_def calls_from_def)
  have w2: "rollupWatcher ?w2 = None \<and> calls_from w ?w2 = calls_from w ?w1 @ [ScanHandlers]"
    using r1
    by (simp add: await_def reload_close_previous_def resolved_def scanHandlers_def emit_def
        calls_from_def watch_setup_def split: sum.splits)
  have s: "fst (close_handler w) = Inr ()
        \<and> calls_from w (snd (close_handler w)) = [RollupWatcherClose h, FsWatcherClose]"
    if "rollupWatcher w = Some h"
    using that by (simp add: close_handler_def emit_def calls_from_def)
  from c [OF r1] c [of ?w2] w2 r1 t1 s show ?thesis
    by (simp add: c)
qed


text \<open>The theorem at a world without a watcher, and at one with the watcher 0.\<close>

theorem close_before_first_watcher_witness:
  "rollupWatcher (example_world (example_nitro ''/proj/dist'' ''/proj/dist/public'' ''/proj/dist/server'' []))
     = None
   \<and> close_handler (example_world (example_nitro ''/proj/dist'' ''/proj/dist/public'' ''/proj/dist/server'' []))
     = (Inl (TypeError ''Cannot read properties of undefined (reading 'close')''),
        example_world (example_nitro ''/proj/dist'' ''/proj/dist/public'' ''/proj/dist/server'' []))
   \<and> rollupWatcher ((example_world (example_nitro ''/proj/dist'' ''/proj/dist/public'' ''/proj/dist/server'' []))
        \<lparr>rollupWatcher := Some 0\<rparr>) = Some 0
   \<and> fst (close_handler ((example_world (example_nitro ''/proj/dist'' ''/proj/dist/public'' ''/proj/dist/server'' []))
        \<lparr>rollupWatcher := Some 0\<rparr>)) = Inr ()"
proof -
  let ?w = "example_world (example_nitro ''/proj/dist'' ''/proj/dist/public'' ''/proj/dist/server'' [])"
  have n: "rollupWatcher ?w = None"
    by (simp add: example_world_def)
  have s: "rollupWatcher (?w\<lparr>rollupWatcher := Some 0\<rparr>) = Some 0"
    by simp
  from close_before_first_watcher [of ?w 0 "quiet_env ''/proj''"] n
  have 1: "close_handler ?w
     = (Inl (TypeError ''Cannot read properties of undefined (reading 'close')''), ?w)"
    by blast
  from close_before_first_watcher [of "?w\<lparr>rollupWatcher := Some 0\<rparr>" 0 "quiet_env ''/proj''"] s
  have 2: "fst (close_handler (?w\<lparr>rollupWatcher := Some 0\<rparr>)) = Inr ()"
    by blast
  from n 1 s 2 show ?thesis by blast
qed

section \<open>The debounced trigger: bursts and trailing runs\<close>

lemma single_flight_step: "single_flight d \<Longrightarrow> single_flight (debounce_step d ev)"
  by (cases ev) (auto simp: single_flight_def advance_def Let_def split: option.splits)

lemma single_flight_run: "single_flight d \<Longrightarrow> single_flight (debounce_run evs d)"
  unfolding debounce_run_def
  by (induction evs arbitrary: d) (simp_all add: single_flight_step)

lemma single_flight_init: "single_flight (debounce w)"
  by (simp add: single_flight_def debounce_def)

lemma burst_arms_timer:
  assumes "ts \<noteq> []" "within_window (wait d) ts" "\<not> running d"
    and "case timer d of None \<Rightarrow> True | Some due \<Rightarrow> hd ts < due"
  shows "debounce_run (map Call ts) d = d\<lparr>timer := Some (last ts + wait d)\<rparr>"
  using assms
proof (induction ts arbitrary: d)
  case Nil
  then show ?case by simp
next
  case (Cons t ts)
  have a: "advance t d = d"
    using Cons.prems(4) by (auto simp: advance_def split: option.splits)
  have s: "debounce_step d (Call t) = d\<lparr>timer := Some (t + wait d)\<rparr>"
    using Cons.prems(3) by (simp add: a)
  show ?case
  proof (cases "ts = []")
    case True
    then show ?thesis by (simp add: debounce_run_def s del: debounce_step.simps)
  next
    case False
    then obtain u us where ts: "ts = u # us" by (cases ts) auto
    let ?d = "d\<lparr>timer := Some (t + wait d)\<rparr>"
    have "debounce_run (map Call ts) ?d = ?d\<lparr>timer := Some (last ts + wait ?d)\<rparr>"
      using Cons.prems ts by (intro Cons.IH) simp_all
    then show ?thesis
      using False by (simp add: debounce_run_def s del: debounce_step.simps)
  qed
qed


lemma debounce_run_append:
  "debounce_run (xs @ ys) d = debounce_run ys (debounce_run xs d)"
  by (simp add: debounce_run_def)

lemma calls_while_running:
  assumes "running d" "timer d = None" "ts \<noteq> []"
  shows "debounce_run (map Call ts) d = d\<lparr>pending := True\<rparr>"
  using assms
proof (induction ts arbitrary: d)
  case Nil
  then show ?case by simp
next
  case (Cons t ts)
  have s: "debounce_step d (Call t) = d\<lparr>pending := True\<rparr>"
    using Cons.prems(1,2) by (simp add: advance_def)
  show ?case
  proof (cases "ts = []")
    case True
    then show ?thesis by (simp add: debounce_run_def s del: debounce_step.simps)
  next
    case False
    have "debounce_run (map Call ts) (d\<lparr>pending := True\<rparr>) = d\<lparr>pending := True, pending := True\<rparr>"
      using Cons.prems False by (intro Cons.IH) simp_all
    then show ?thesis
      by (simp add: debounce_run_def s del: debounce_step.simps)
  qed
qed

lemma reload_calls_times: "reload_calls evs = map Call (qualifying_times evs)"
  by (induction evs) (auto simp: reload_calls_def qualifying_times_def)

text \<open>
  Claim C2, on the trigger as the spec describes it. Let the trigger be idle in any
  state: no reload runs, none is pending, and a timer, if armed, is not yet due when the
  first event comes (so after \<open>_watch\<close> has called \<open>reload\<close> itself, or after any number of
  earlier reloads). Let filesystem events be delivered, at least one of them structural,
  the structural ones within one debounce window. No reload starts while they arrive;
  when the window after the last of them has passed, exactly one reload starts; when it
  completes, the trigger is idle again with one more reload started and one more
  finished than before, and no timer armed, so that nothing starts later. Let a reload
  be running with nothing pending, and at least one structural event arrive before it
  finishes. No second reload starts while the first runs; when the first finishes,
  exactly one more starts; when that one finishes, nothing runs and nothing starts
  later. After any sequence of calls, passing of time and completions, the number of
  reloads started is the number finished, plus one while a reload runs.
\<close>

theorem debounced_single_flight:
  "(\<not> running d \<and> \<not> pending d
      \<and> (case timer d of None \<Rightarrow> True | Some due \<Rightarrow> hd (qualifying_times evs) < due)
      \<and> qualifying_times evs \<noteq> [] \<and> within_window (wait d) (qualifying_times evs)
      \<and> last (qualifying_times evs) + wait d \<le> T \<longrightarrow>
        debounce_run (reload_calls evs) d
          = d\<lparr>timer := Some (last (qualifying_times evs) + wait d)\<rparr>
      \<and> debounce_run (reload_calls evs @ [Tick T]) d
          = d\<lparr>timer := None, running := True, started := started d + 1\<rparr>
      \<and> debounce_run (reload_calls evs @ [Tick T, Done]) d
          = d\<lparr>timer := None, started := started d + 1, finished := finished d + 1\<rparr>
      \<and> debounce_run (reload_calls evs @ [Tick T, Done, Tick T']) d
          = debounce_run (reload_calls evs @ [Tick T, Done]) d)
   \<and> (running d \<and> \<not> pending d \<and> timer d = None \<and> qualifying_times evs \<noteq> [] \<longrightarrow>
        started (debounce_run (reload_calls evs) d) = started d
      \<and> started (debounce_run (reload_calls evs @ [Done]) d) = started d + 1
      \<and> running (debounce_run (reload_calls evs @ [Done]) d)
      \<and> started (debounce_run (reload_calls evs @ [Done, Done]) d) = started d + 1
      \<and> \<not> running (debounce_run (reload_calls evs @ [Done, Done]) d)
      \<and> debounce_run (reload_calls evs @ [Done, Done, Tick T]) d
          = debounce_run (reload_calls evs @ [Done, Done]) d
      \<and> debounce_run (reload_calls evs) d = d\<lparr>pending := True\<rparr>
      \<and> debounce_run (reload_calls evs @ [Done]) d
          = d\<lparr>started := started d + 1, finished := finished d + 1\<rparr>
      \<and> debounce_run (reload_calls evs @ [Done, Done]) d
          = d\<lparr>running := False, started := started d + 1, finished := finished d + 2\<rparr>)
   \<and> single_flight (debounce_run steps (debounce w))"
proof (intro conjI impI)
  assume a: "\<not> running d \<and> \<not> pending d
      \<and> (case timer d of None \<Rightarrow> True | Some due \<Rightarrow> hd (qualifying_times evs) < due)
      \<and> qualifying_times evs \<noteq> [] \<and> within_window (wait d) (qualifying_times evs)
      \<and> last (qualifying_times evs) + wait d \<le> T"
  let ?due = "last (qualifying_times evs) + wait d"
  show b: "debounce_run (reload_calls evs) d = d\<lparr>timer := Some ?due\<rparr>"
    using a burst_arms_timer [of "qualifying_times evs" d]
    by (simp add: reload_calls_times)
  show t: "debounce_run (reload_calls evs @ [Tick T]) d
          = d\<lparr>timer := None, running := True, started := started d + 1\<rparr>"
    using a by (simp add: debounce_run_append b) (simp add: debounce_run_def advance_def)
  have "debounce_run (reload_calls evs @ [Tick T, Done]) d
          = debounce_step (debounce_run (reload_calls evs @ [Tick T]) d) Done"
    by (simp add: debounce_run_def)
  also have "\<dots> = d\<lparr>timer := None, started := started d + 1, finished := finished d + 1\<rparr>"
    using a unfolding t by simp
  finally show f: "debounce_run (reload_calls evs @ [Tick T, Done]) d
          = d\<lparr>timer := None, started := started d + 1, finished := finished d + 1\<rparr>" .
  have "debounce_run (reload_calls evs @ [Tick T, Done, Tick T']) d
          = debounce_step (debounce_run (reload_calls evs @ [Tick T, Done]) d) (Tick T')"
    by (simp add: debounce_run_def)
  also have "\<dots> = debounce_run (reload_calls evs @ [Tick T, Done]) d"
    unfolding f by (simp add: advance_def)
  finally show "debounce_run (reload_calls evs @ [Tick T, Done, Tick T']) d
          = debounce_run (reload_calls evs @ [Tick T, Done]) d" .
next
  assume a: "running d \<and> \<not> pending d \<and> timer d = None \<and> qualifying_times evs \<noteq> []"
  have b: "debounce_run (reload_calls evs) d = d\<lparr>pending := True\<rparr>"
    using a calls_while_running [of d "qualifying_times evs"] by (simp add: reload_calls_times)
  show "started (debounce_run (reload_calls evs) d) = started d"
    by (simp add: b)
  show "started (debounce_run (reload_calls evs @ [Done]) d) = started d + 1"
    using a by (simp add: debounce_run_append b) (simp add: debounce_run_def)
  show "running (debounce_run (reload_calls evs @ [Done]) d)"
    using a by (simp add: debounce_run_append b) (simp add: debounce_run_def)
  show "started (debounce_run (reload_calls evs @ [Done, Done]) d) = started d + 1"
    using a by (simp add: debounce_run_append b) (simp add: debounce_run_def)
  show "\<not> running (debounce_run (reload_calls evs @ [Done, Done]) d)"
    using a by (simp add: debounce_run_append b) (simp add: debounce_run_def)
  show "debounce_run (reload_calls evs @ [Done, Done, Tick T]) d
          = debounce_run (reload_calls evs @ [Done, Done]) d"
    using a by (simp add: debounce_run_append b) (simp add: debounce_run_def advance_def)
  show "debounce_run (reload_calls evs) d = d\<lparr>pending := True\<rparr>"
    by (rule b)
  show "debounce_run (reload_calls evs @ [Done]) d
          = d\<lparr>started := started d + 1, finished := finished d + 1\<rparr>"
    using a by (simp add: debounce_run_append b) (simp add: debounce_run_def)
  show "debounce_run (reload_calls evs @ [Done, Done]) d
          = d\<lparr>running := False, started := started d + 1, finished := finished d + 2\<rparr>"
    using a by (simp add: debounce_run_append b) (simp add: debounce_run_def)
next
  show "single_flight (debounce_run steps (debounce w))"
    by (rule single_flight_run [OF single_flight_init])
qed


text \<open>
  The theorem after the start-up reload of \<open>_watch\<close> has completed, at two structural events
  5 units apart (and a content modification between them) with a window of 50 units;
  at two structural events that come while the timer of the start-up call is armed; and
  at a structural event while a reload is running.
\<close>

theorem debounced_single_flight_witness:
  "debounce_run [Call 0, Tick 50, Done] (debounce 50)
     = \<lparr>wait = 50, timer = None, running = False, pending = False, started = 1, finished = 1\<rparr>
   \<and> qualifying_times [(100, ''add''), (103, ''change''), (105, ''unlinkDir'')] = [100, 105]
   \<and> within_window 50 [100, 105]
   \<and> debounce_run (reload_calls [(100, ''add''), (103, ''change''), (105, ''unlinkDir'')] @ [Tick 155, Done])
        (debounce_run [Call 0, Tick 50, Done] (debounce 50))
     = \<lparr>wait = 50, timer = None, running = False, pending = False, started = 2, finished = 2\<rparr>
   \<and> debounce_run (reload_calls [(5, ''add''), (10, ''addDir'')] @ [Tick 60, Done])
        (debounce_run [Call 0] (debounce 50))
     = \<lparr>wait = 50, timer = None, running = False, pending = False, started = 1, finished = 1\<rparr>
   \<and> started (debounce_run (reload_calls [(160, ''addDir'')] @ [Done, Done])
        (debounce_run (reload_calls [(100, ''add''), (103, ''change''), (105, ''unlinkDir'')] @ [Tick 155])
           (debounce_run [Call 0, Tick 50, Done] (debounce 50)))) = 3"
proof -
  let ?evs = "[(100, ''add''), (103, ''change''), (105, ''unlinkDir'')]"
  let ?d0 = "\<lparr>wait = 50, timer = None, running = False, pending = False, started = 1, finished = 1\<rparr>"
  let ?d1 = "\<lparr>wait = 50, timer = Some 50, running = False, pending = False, started = 0, finished = 0\<rparr>"
  let ?d2 = "\<lparr>wait = 50, timer = None, running = True, pending = False, started = 2, finished = 1\<rparr>"
  have s0: "debounce_run [Call 0, Tick 50, Done] (debounce 50) = ?d0"
    by (simp add: debounce_run_def debounce_def advance_def)
  have s1: "debounce_run [Call 0] (debounce 50) = ?d1"
    by (simp add: debounce_run_def debounce_def advance_def)
  have q: "qualifying_times ?evs = [100, 105]"
    by (simp add: qualifying_times_def watchReloadEvents_def)
  have q1: "qualifying_times [(5, ''add''), (10, ''addDir'')] = [5, 10]"
    by (simp add: qualifying_times_def watchReloadEvents_def)
  have q2: "qualifying_times [(160, ''addDir'')] \<noteq> []"
    by (simp add: qualifying_times_def watchReloadEvents_def)
  have w: "within_window 50 [100, 105]"
    by simp
  from debounced_single_flight [of ?d0 ?evs 155] q
  have a: "debounce_run (reload_calls ?evs @ [Tick 155, Done]) ?d0
             = \<lparr>wait = 50, timer = None, running = False, pending = False, started = 2, finished = 2\<rparr>"
    and b: "debounce_run (reload_calls ?evs @ [Tick 155]) ?d0 = ?d2"
    by simp_all
  from debounced_single_flight [of ?d1 "[(5, ''add''), (10, ''addDir'')]" 60] q1
  have c: "debounce_run (reload_calls [(5, ''add''), (10, ''addDir'')] @ [Tick 60, Done]) ?d1 = ?d0"
    by simp
  from debounced_single_flight [of ?d2 "[(160, ''addDir'')]"] q2
  have e: "started (debounce_run (reload_calls [(160, ''addDir'')] @ [Done, Done]) ?d2) = 3"
    by simp
  from s0 q w a c e show ?thesis
    unfolding s0 s1 b by blast
qed

end
